theory Spec2Isabelle
  imports Main
begin

section \<open>Strings\<close>

text \<open>
  A JavaScript string is a sequence of UTF-16 code units. The regular expressions of
  \<open>shouldUseCard\<close> have no \<open>u\<close> flag and \<open>String.prototype.trim\<close> works on code
  units too, so a string is modelled as the list of its code units.
\<close>

type_synonym jsstring = "nat list"

definition str :: "string \<Rightarrow> jsstring" where
  "str s = map of_char s"

definition BACKTICK :: nat where "BACKTICK = 96"
definition PIPE :: nat where "PIPE = 124"
definition LF :: nat where "LF = 10"
definition CR :: nat where "CR = 13"
definition DASH :: nat where "DASH = 45"
definition COLON :: nat where "COLON = 58"
definition SPACE :: nat where "SPACE = 32"

text \<open>ECMAScript \<open>LineTerminator\<close>: LF, CR, LS (U+2028), PS (U+2029).\<close>

definition isLineTerminator :: "nat \<Rightarrow> bool" where
  "isLineTerminator c = (c = 10 \<or> c = 13 \<or> c = 8232 \<or> c = 8233)"

text \<open>
  ECMAScript \<open>WhiteSpace\<close> (TAB, VT, FF, SP, NBSP, ZWNBSP and the category Zs), the
  characters \<open>trim\<close> strips together with the line terminators.
\<close>

definition isWhiteSpace :: "nat \<Rightarrow> bool" where
  "isWhiteSpace c =
     (c = 9 \<or> c = 11 \<or> c = 12 \<or> c = 32 \<or> c = 160 \<or> c = 5760 \<or>
      (8192 \<le> c \<and> c \<le> 8202) \<or> c = 8239 \<or> c = 8287 \<or> c = 12288 \<or> c = 65279)"

definition isTrimmed :: "nat \<Rightarrow> bool" where
  "isTrimmed c = (isWhiteSpace c \<or> isLineTerminator c)"

text \<open>\<open>String.prototype.trim\<close>: strip white space and line terminators at both ends.\<close>

definition trim :: "jsstring \<Rightarrow> jsstring" where
  "trim s = rev (dropWhile isTrimmed (rev (dropWhile isTrimmed s)))"

section \<open>Regular expressions of the source\<close>

text \<open>
  The two patterns of \<open>shouldUseCard\<close> are sequences of single characters and of
  character classes under \<open>*\<close> or \<open>+\<close>. \<open>RegExp.prototype.test\<close> asks whether some
  substring matches, so laziness (\<open>*?\<close>) does not change its answer.
\<close>

datatype rx_item =
    One "nat \<Rightarrow> bool"
  | Many "nat \<Rightarrow> bool"
  | Many1 "nat \<Rightarrow> bool"

type_synonym regex = "rx_item list"

text \<open>\<open>matchPrefix r s\<close>: some prefix of \<open>s\<close> matches \<open>r\<close>.\<close>

function matchPrefix :: "regex \<Rightarrow> jsstring \<Rightarrow> bool" where
  "matchPrefix [] s = True"
| "matchPrefix (One p # r) [] = False"
| "matchPrefix (One p # r) (c # cs) = (p c \<and> matchPrefix r cs)"
| "matchPrefix (Many p # r) [] = matchPrefix r []"
| "matchPrefix (Many p # r) (c # cs) =
     (matchPrefix r (c # cs) \<or> (p c \<and> matchPrefix (Many p # r) cs))"
| "matchPrefix (Many1 p # r) [] = False"
| "matchPrefix (Many1 p # r) (c # cs) = (p c \<and> matchPrefix (Many p # r) cs)"
  by pat_completeness auto
termination
  by (relation "measures [\<lambda>(r, s). length s, \<lambda>(r, s). length r]") auto

text \<open>\<open>regexTest r s\<close>: \<open>r.test(s)\<close>, a match starting at some position of \<open>s\<close>.\<close>

fun regexTest :: "regex \<Rightarrow> jsstring \<Rightarrow> bool" where
  "regexTest r [] = matchPrefix r []"
| "regexTest r (c # cs) = (matchPrefix r (c # cs) \<or> regexTest r cs)"

definition lit :: "nat \<Rightarrow> rx_item" where
  "lit a = One (\<lambda>c. c = a)"

text \<open>\<^verbatim>\<open>/```[\s\S]*?```/\<close>\<close>

definition FENCE_RE :: regex where
  "FENCE_RE = [lit BACKTICK, lit BACKTICK, lit BACKTICK, Many (\<lambda>c. True),
               lit BACKTICK, lit BACKTICK, lit BACKTICK]"

text \<open>\<^verbatim>\<open>/\|.+\|[\r\n]+\|[-:| ]+\|/\<close>\<close>

definition TABLE_RE :: regex where
  "TABLE_RE = [lit PIPE, Many1 (\<lambda>c. \<not> isLineTerminator c), lit PIPE,
               Many1 (\<lambda>c. c = CR \<or> c = LF), lit PIPE,
               Many1 (\<lambda>c. c = DASH \<or> c = COLON \<or> c = PIPE \<or> c = SPACE), lit PIPE]"

definition shouldUseCard :: "jsstring \<Rightarrow> bool" where
  "shouldUseCard text =
     (if regexTest FENCE_RE text then True
      else if regexTest TABLE_RE text then True
      else False)"

text \<open>
  The render decision of \<open>deliver\<close>:
  \<^verbatim>\<open>renderMode = feishuCfg?.renderMode ?? "auto"\<close>,
  \<^verbatim>\<open>useCard = renderMode === "card" || (renderMode === "auto" && shouldUseCard(text))\<close>.
\<close>

definition resolveRenderMode :: "jsstring option \<Rightarrow> jsstring" where
  "resolveRenderMode cfgMode = (case cfgMode of None \<Rightarrow> str ''auto'' | Some m \<Rightarrow> m)"

definition useCard :: "jsstring option \<Rightarrow> jsstring \<Rightarrow> bool" where
  "useCard cfgMode text =
     (let renderMode = resolveRenderMode cfgMode
      in renderMode = str ''card'' \<or> (renderMode = str ''auto'' \<and> shouldUseCard text))"


text \<open>
  The spec's words for what the auto mode looks for, to be compared with the two
  patterns: a pair of triple-backtick delimiters, and a row between pipes followed by
  line breaks and a separator row between pipes.
\<close>

definition spec_fencedCodeBlock :: "jsstring \<Rightarrow> bool" where
  "spec_fencedCodeBlock text =
     (\<exists>pre body post. text = pre @ str ''```'' @ body @ str ''```'' @ post)"

definition spec_markdownTable :: "jsstring \<Rightarrow> bool" where
  "spec_markdownTable text =
     (\<exists>pre row brk sep post.
        text = pre @ [PIPE] @ row @ [PIPE] @ brk @ [PIPE] @ sep @ [PIPE] @ post \<and>
        row \<noteq> [] \<and> (\<forall>c\<in>set row. \<not> isLineTerminator c) \<and>
        brk \<noteq> [] \<and> (\<forall>c\<in>set brk. c = CR \<or> c = LF) \<and>
        sep \<noteq> [] \<and> (\<forall>c\<in>set sep. c = DASH \<or> c = COLON \<or> c = PIPE \<or> c = SPACE))"

text \<open>The strings a pattern matches as a whole, for the proofs about \<open>regexTest\<close>.\<close>

fun matchesAll :: "regex \<Rightarrow> jsstring \<Rightarrow> bool" where
  "matchesAll [] u = (u = [])"
| "matchesAll (One p # r) u = (\<exists>c w. u = c # w \<and> p c \<and> matchesAll r w)"
| "matchesAll (Many p # r) u =
     (\<exists>a w. u = a @ w \<and> (\<forall>c\<in>set a. p c) \<and> matchesAll r w)"
| "matchesAll (Many1 p # r) u =
     (\<exists>a w. u = a @ w \<and> a \<noteq> [] \<and> (\<forall>c\<in>set a. p c) \<and> matchesAll r w)"

section \<open>The streaming card: class FeishuStream\<close>

text \<open>
  \<open>FeishuStream\<close> is asynchronous: \<open>update\<close>, \<open>performUpdate\<close> and \<open>finalize\<close>
  run up to their next \<open>await\<close>, and what follows the \<open>await\<close> runs when the network
  call settles. The model is a step function on the object's fields together with the
  clock, the calls in flight and the log of calls issued. An event is a method call, the
  settling of a call in flight, the firing of the timer, or time passing.
\<close>

datatype net_call =
    Create jsstring                  \<comment> \<open>\<open>sendCardFeishu\<close> with a streaming card of this content\<close>
  | Patch jsstring jsstring bool     \<comment> \<open>\<open>updateCardFeishu\<close>: message id, content, \<open>streaming_mode\<close>\<close>

datatype net_outcome =
    Resolved jsstring                \<comment> \<open>the promise resolves; a creation gives \<open>result.messageId\<close>, an update nothing that is read\<close>
  | Rejected                         \<comment> \<open>the promise rejects (the call throws)\<close>

text \<open>What waits for a call in flight: the code after the \<open>await\<close>.\<close>

datatype suspended =
    InitTask jsstring                \<comment> \<open>the initialization closure, lines 69-88\<close>
  | PerformTask jsstring             \<comment> \<open>\<open>performUpdate\<close>, lines 119-120\<close>
  | FinalizeTask                     \<comment> \<open>\<open>finalize\<close>, line 143\<close>

record stream =
  messageId :: "jsstring option"
  lastContent :: jsstring
  lastUpdateTime :: int
  pendingUpdate :: "(int \<times> jsstring) option"   \<comment> \<open>the timer: when it is due, the content it captured\<close>
  isFinalized :: bool
  initializationPromise :: bool                   \<comment> \<open>the field holds a promise\<close>
  now :: int                                      \<comment> \<open>\<open>Date.now()\<close>\<close>
  inflight :: "suspended list"
  waiters :: "(jsstring \<times> bool) list"          \<comment> \<open>\<open>update\<close> calls suspended at line 59\<close>
  calls :: "net_call list"

definition STREAM_UPDATE_INTERVAL_MS :: int where
  "STREAM_UPDATE_INTERVAL_MS = 400"

definition newStream :: "int \<Rightarrow> stream" where
  "newStream t = \<lparr> messageId = None, lastContent = [], lastUpdateTime = 0,
     pendingUpdate = None, isFinalized = False, initializationPromise = False,
     now = t, inflight = [], waiters = [], calls = [] \<rparr>"

text \<open>\<^verbatim>\<open>!this.messageId\<close> is true of \<open>null\<close> and of the empty string.\<close>

definition hasMessageId :: "stream \<Rightarrow> bool" where
  "hasMessageId s = (case messageId s of None \<Rightarrow> False | Some m \<Rightarrow> m \<noteq> [])"

definition theMessageId :: "stream \<Rightarrow> jsstring" where
  "theMessageId s = (case messageId s of None \<Rightarrow> [] | Some m \<Rightarrow> m)"

text \<open>\<open>performUpdate\<close> up to its \<open>await\<close> (lines 110-118).\<close>

definition performUpdate :: "jsstring \<Rightarrow> stream \<Rightarrow> stream" where
  "performUpdate content s =
     (if \<not> hasMessageId s \<or> isFinalized s then s
      else s\<lparr> calls := calls s @ [Patch (theMessageId s) content True],
              inflight := inflight s @ [PerformTask content] \<rparr>)"

text \<open>Lines 95-106 of \<open>update\<close>: send now, or arm the timer unless one is armed.\<close>

definition scheduleOrExecute :: "jsstring \<Rightarrow> bool \<Rightarrow> stream \<Rightarrow> stream" where
  "scheduleOrExecute content isFinal s =
     (let timeSinceLast = now s - lastUpdateTime s
      in if isFinal \<or> timeSinceLast \<ge> STREAM_UPDATE_INTERVAL_MS then performUpdate content s
         else if pendingUpdate s = None
         then s\<lparr> pendingUpdate :=
                   Some (now s + (STREAM_UPDATE_INTERVAL_MS - timeSinceLast), content) \<rparr>
         else s)"

text \<open>\<open>update\<close> up to its first \<open>await\<close> (lines 51-107).\<close>

definition update :: "jsstring \<Rightarrow> bool \<Rightarrow> stream \<Rightarrow> stream" where
  "update content isFinal s =
     (if isFinalized s then s
      else if content = lastContent s then s
      else if \<not> hasMessageId s then
        (if initializationPromise s
         then s\<lparr> waiters := waiters s @ [(content, isFinal)] \<rparr>
         else s\<lparr> initializationPromise := True,
                 calls := calls s @ [Create content],
                 inflight := inflight s @ [InitTask content] \<rparr>)
      else scheduleOrExecute content isFinal s)"

text \<open>\<open>finalize\<close> up to its \<open>await\<close> (lines 126-142).\<close>

definition finalize :: "jsstring \<Rightarrow> stream \<Rightarrow> stream" where
  "finalize content s =
     (if isFinalized s then s
      else let s1 = s\<lparr> pendingUpdate := None \<rparr>
           in if hasMessageId s1
              then s1\<lparr> calls := calls s1 @ [Patch (theMessageId s1) content False],
                       inflight := inflight s1 @ [FinalizeTask] \<rparr>
              else s1)"

text \<open>
  An \<open>update\<close> that waited for the creation resumes at line 61: it returns when there
  is still no message id and goes on to lines 95-106 otherwise.
\<close>

definition resumeWaiter :: "jsstring \<times> bool \<Rightarrow> stream \<Rightarrow> stream" where
  "resumeWaiter w s =
     (if \<not> hasMessageId s then s else scheduleOrExecute (fst w) (snd w) s)"

text \<open>
  The code after an \<open>await\<close>, run when the call settles. When the creation settles the
  closure records the id (or logs the error), clears the promise in its \<open>finally\<close>,
  and the waiting \<open>update\<close> calls resume in the order they arrived.
\<close>

fun continue :: "suspended \<Rightarrow> net_outcome \<Rightarrow> stream \<Rightarrow> stream" where
  "continue (InitTask content) (Resolved mid) s =
     (let s1 = s\<lparr> messageId := Some mid, lastContent := content, lastUpdateTime := now s,
                   initializationPromise := False \<rparr>
      in fold resumeWaiter (waiters s1) (s1\<lparr> waiters := [] \<rparr>))"
| "continue (InitTask content) Rejected s =
     (let s1 = s\<lparr> initializationPromise := False \<rparr>
      in fold resumeWaiter (waiters s1) (s1\<lparr> waiters := [] \<rparr>))"
| "continue (PerformTask content) (Resolved r) s =
     s\<lparr> lastContent := content, lastUpdateTime := now s \<rparr>"
| "continue (PerformTask content) Rejected s = s"
| "continue FinalizeTask (Resolved r) s = s\<lparr> isFinalized := True \<rparr>"
| "continue FinalizeTask Rejected s = s"

text \<open>The call at position \<open>k\<close> of those in flight settles.\<close>

definition settle :: "nat \<Rightarrow> net_outcome \<Rightarrow> stream \<Rightarrow> stream" where
  "settle k out s =
     (if k < length (inflight s)
      then continue (inflight s ! k) out
             (s\<lparr> inflight := take k (inflight s) @ drop (Suc k) (inflight s) \<rparr>)
      else s)"

text \<open>The timer's callback (lines 102-105); it runs only once the timer is due.\<close>

definition fire :: "stream \<Rightarrow> stream" where
  "fire s =
     (case pendingUpdate s of
        None \<Rightarrow> s
      | Some (due, content) \<Rightarrow>
          if now s < due then s
          else performUpdate content (s\<lparr> pendingUpdate := None \<rparr>))"

datatype event =
    Update jsstring bool
  | Finalize jsstring
  | Settle nat net_outcome
  | Fire
  | Tick nat                         \<comment> \<open>this many milliseconds pass\<close>

fun step :: "event \<Rightarrow> stream \<Rightarrow> stream" where
  "step (Update content isFinal) s = update content isFinal s"
| "step (Finalize content) s = finalize content s"
| "step (Settle k out) s = settle k out s"
| "step Fire s = fire s"
| "step (Tick d) s = s\<lparr> now := now s + int d \<rparr>"

definition run :: "event list \<Rightarrow> stream \<Rightarrow> stream" where
  "run es s = fold step es s"

definition isCreate :: "net_call \<Rightarrow> bool" where
  "isCreate c = (case c of Create _ \<Rightarrow> True | Patch _ _ _ \<Rightarrow> False)"

definition creations :: "stream \<Rightarrow> net_call list" where
  "creations s = filter isCreate (calls s)"

definition isInitTask :: "suspended \<Rightarrow> bool" where
  "isInitTask t = (case t of InitTask _ \<Rightarrow> True | _ \<Rightarrow> False)"


section \<open>The reply dispatcher: createFeishuReplyDispatcher\<close>

datatype error =
    ChannelNotConfigured     \<comment> \<open>\<^verbatim>\<open>throw new Error("Feishu channel not configured")\<close>\<close>
  | ListMessagesFailed       \<comment> \<open>\<^verbatim>\<open>throw new Error(`Feishu list messages failed: ...`)\<close>\<close>
  | TransportError           \<comment> \<open>a transport call rejects\<close>
  | CollaboratorError        \<comment> \<open>a collaborator outside the repository throws\<close>

text \<open>
  Modelled from the spec: \<open>TypingIndicatorState\<close> of \<open>src/typing.ts\<close>, which is not
  among the sources: an opaque handle identifying an active ephemeral indicator, plus the
  target it was applied to.
\<close>

datatype typing_state = TypingIndicatorState (target: jsstring) (indicator: jsstring)

datatype transport_call =
    SendMarkdownCardFeishu jsstring      \<comment> \<open>one chunk, as a card\<close>
  | SendMessageFeishu jsstring           \<comment> \<open>one chunk, as plain text\<close>
  | StreamCall net_call                  \<comment> \<open>a call of the streaming card\<close>
  | RemoveIndicator typing_state         \<comment> \<open>the removal of the typing reaction\<close>

text \<open>A call is started, and later it is completed: resolved (\<open>True\<close>) or rejected.\<close>

datatype io_event = Started transport_call | Completed transport_call bool

text \<open>The variables the closures of \<open>createFeishuReplyDispatcher\<close> share.\<close>

record dispatcher =
  typingState :: "typing_state option"
  currentStream :: "stream option"
  io :: "io_event list"

text \<open>
  What the closures read and do not change: the configured render mode
  (\<^verbatim>\<open>cfg.channels?.feishu?.renderMode\<close>), and the two text functions of the plugin
  runtime, \<open>chunkTextWithMode\<close> at the resolved limit and mode and
  \<open>convertMarkdownTables\<close> at the resolved table mode.
\<close>

record deliver_env =
  renderMode :: "jsstring option"
  chunkTextWithMode :: "jsstring \<Rightarrow> jsstring list"
  convertMarkdownTables :: "jsstring \<Rightarrow> jsstring"


text \<open>
  \<^verbatim>\<open>for (const chunk of chunks) { await send(chunk) }\<close>: the \<open>k\<close>-th send of the
  delivery rejects when \<open>fails k\<close>, and the rejection leaves the loop and \<open>deliver\<close>.
\<close>

fun sendChunks :: "(jsstring \<Rightarrow> transport_call) \<Rightarrow> (nat \<Rightarrow> bool) \<Rightarrow> nat \<Rightarrow> jsstring list \<Rightarrow>
    io_event list \<Rightarrow> (error + unit) \<times> io_event list" where
  "sendChunks send fails k [] evs = (Inr (), evs)"
| "sendChunks send fails k (chunk # chunks) evs =
     (if fails k
      then (Inl TransportError, evs @ [Started (send chunk), Completed (send chunk) False])
      else sendChunks send fails (Suc k) chunks
             (evs @ [Started (send chunk), Completed (send chunk) True]))"

text \<open>
  The stream branch of \<open>deliver\<close>: \<^verbatim>\<open>await currentStream.finalize(text)\<close>. The call
  that \<open>finalize\<close> issues, if any, settles before \<open>deliver\<close> goes on.
\<close>

definition finalizeAndWait :: "bool \<Rightarrow> jsstring \<Rightarrow> stream \<Rightarrow> stream \<times> io_event list" where
  "finalizeAndWait ok text s =
     (let s1 = finalize text s;
          issued = drop (length (calls s)) (calls s1);
          s2 = (if length (inflight s) < length (inflight s1)
                then settle (length (inflight s)) (if ok then Resolved [] else Rejected) s1
                else s1)
      in (s2, concat (map (\<lambda>c. [Started (StreamCall c), Completed (StreamCall c) ok]) issued)))"

text \<open>\<open>deliver\<close> of the dispatcher with streaming and cards. \<open>None\<close> is a payload without text.\<close>

definition deliver :: "deliver_env \<Rightarrow> (nat \<Rightarrow> bool) \<Rightarrow> jsstring option \<Rightarrow> dispatcher \<Rightarrow>
    (error + unit) \<times> dispatcher" where
  "deliver env fails payloadText d =
     (let text = (case payloadText of None \<Rightarrow> [] | Some t \<Rightarrow> t)
      in if trim text = [] then (Inr (), d)
         else case currentStream d of
           Some s \<Rightarrow>
             (let (s', evs) = finalizeAndWait (\<not> fails 0) text s
              in (Inr (), d\<lparr> currentStream := None, io := io d @ evs \<rparr>))
         | None \<Rightarrow>
             if useCard (renderMode env) text
             then (let chunks = chunkTextWithMode env text;
                       (r, evs) = sendChunks SendMarkdownCardFeishu fails 0 chunks (io d)
                   in (r, d\<lparr> io := evs \<rparr>))
             else (let converted = convertMarkdownTables env text;
                       chunks = chunkTextWithMode env converted;
                       (r, evs) = sendChunks SendMessageFeishu fails 0 chunks (io d)
                   in (r, d\<lparr> io := evs \<rparr>)))"

text \<open>\<open>deliver\<close> of \<open>src/reply-dispatcher.ts\<close>, the dispatcher without streaming and cards.\<close>

definition deliver_plain :: "deliver_env \<Rightarrow> (nat \<Rightarrow> bool) \<Rightarrow> jsstring option \<Rightarrow> dispatcher \<Rightarrow>
    (error + unit) \<times> dispatcher" where
  "deliver_plain env fails payloadText d =
     (let text = (case payloadText of None \<Rightarrow> [] | Some t \<Rightarrow> t)
      in if trim text = [] then (Inr (), d)
         else (let converted = convertMarkdownTables env text;
                   chunks = chunkTextWithMode env converted;
                   (r, evs) = sendChunks SendMessageFeishu fails 0 chunks (io d)
               in (r, d\<lparr> io := evs \<rparr>)))"

text \<open>The position of the first send that fails among \<open>n\<close>, or \<open>n\<close> when none does.\<close>

fun firstFailure :: "(nat \<Rightarrow> bool) \<Rightarrow> nat \<Rightarrow> nat \<Rightarrow> nat" where
  "firstFailure fails k 0 = 0"
| "firstFailure fails k (Suc n) = (if fails k then 0 else Suc (firstFailure fails (Suc k) n))"

definition isStarted :: "io_event \<Rightarrow> bool" where
  "isStarted e = (case e of Started _ \<Rightarrow> True | Completed _ _ \<Rightarrow> False)"


section \<open>Reading messages: send.ts\<close>

text \<open>
  The responses of the Feishu API, with every optional field as an option. \<open>sender_id\<close>
  is the field \<open>id\<close> of \<open>sender\<close>, \<open>body_content\<close> is \<^verbatim>\<open>body?.content\<close>.
\<close>

record api_sender =
  sender_id :: "jsstring option"
  id_type :: "jsstring option"
  sender_type :: "jsstring option"

record api_item =
  message_id :: "jsstring option"
  chat_id :: "jsstring option"
  msg_type :: "jsstring option"
  body_content :: "jsstring option"
  sender :: "api_sender option"
  create_time :: "jsstring option"
  deleted :: "bool option"

record api_response =
  code :: "int option"
  msg :: "jsstring option"
  data_items :: "api_item list option"
  has_more :: "bool option"
  page_token :: "jsstring option"

record list_request =
  container_id :: jsstring
  page_size :: int
  req_page_token :: "jsstring option"
  start_time :: "jsstring option"
  end_time :: "jsstring option"
  sort_type :: jsstring

text \<open>The two calls of the SDK client that \<open>send.ts\<close> awaits here; \<open>Inl\<close> is a rejection.\<close>

record client =
  im_message_get :: "jsstring \<Rightarrow> error + api_response"
  im_message_list :: "list_request \<Rightarrow> error + api_response"

text \<open>
  The built-ins: \<open>JSON.parse\<close> and \<open>parseInt(_, 10)\<close>. Of a parsed value the code
  reads the property \<open>text\<close> only: reading it throws on \<open>null\<close>, and \<open>JValue t\<close> is
  any other value, whose \<open>text\<close> is the string \<open>t\<close> if it has one.
\<close>

datatype parsed = SyntaxError | JNull | JValue "jsstring option"

datatype jsnum = Num int | NaN

record builtins =
  JSON_parse :: "jsstring \<Rightarrow> parsed"
  parseInt10 :: "jsstring \<Rightarrow> jsnum"

text \<open>Truthiness of an optional string: neither \<open>undefined\<close> nor empty.\<close>

definition truthy :: "jsstring option \<Rightarrow> bool" where
  "truthy x = (case x of None \<Rightarrow> False | Some v \<Rightarrow> v \<noteq> [])"

definition orElse :: "'a option \<Rightarrow> 'a \<Rightarrow> 'a" where
  "orElse x d = (case x of None \<Rightarrow> d | Some v \<Rightarrow> v)"

record FeishuMessageInfo =
  info_messageId :: jsstring
  info_chatId :: jsstring
  info_senderId :: "jsstring option"
  info_senderOpenId :: "jsstring option"
  info_content :: jsstring
  info_contentType :: jsstring
  info_createTime :: "jsnum option"

text \<open>Lines 65-73 of \<open>getMessageFeishu\<close>: the text of a text message, the raw content otherwise.\<close>

definition getContent :: "builtins \<Rightarrow> api_item \<Rightarrow> jsstring" where
  "getContent b item =
     (let content = orElse (body_content item) []
      in case JSON_parse b content of
           SyntaxError \<Rightarrow> content
         | JNull \<Rightarrow> content
         | JValue t \<Rightarrow>
             if msg_type item = Some (str ''text'') \<and> truthy t then orElse t [] else content)"

definition senderField :: "(api_sender \<Rightarrow> jsstring option) \<Rightarrow> api_item \<Rightarrow> jsstring option" where
  "senderField f item = (case sender item of None \<Rightarrow> None | Some sd \<Rightarrow> f sd)"

definition toMessageInfo :: "builtins \<Rightarrow> jsstring \<Rightarrow> api_item \<Rightarrow> FeishuMessageInfo" where
  "toMessageInfo b msgId item =
     \<lparr> info_messageId = orElse (message_id item) msgId,
       info_chatId = orElse (chat_id item) [],
       info_senderId = senderField sender_id item,
       info_senderOpenId =
         (if senderField id_type item = Some (str ''open_id'') then senderField sender_id item
          else None),
       info_content = getContent b item,
       info_contentType = orElse (msg_type item) (str ''text''),
       info_createTime =
         (if truthy (create_time item) then Some (parseInt10 b (orElse (create_time item) []))
          else None) \<rparr>"

text \<open>
  \<open>getMessageFeishu\<close>. \<open>feishuCfg\<close> is \<^verbatim>\<open>cfg.channels?.feishu\<close>; \<open>createFeishuClient\<close>
  (of \<open>src/client.ts\<close>, not among the sources) is a parameter, called outside the
  \<open>try\<close>. \<open>Inr None\<close> is the result \<open>null\<close>.
\<close>

definition getMessageFeishu :: "builtins \<Rightarrow> ('c \<Rightarrow> error + client) \<Rightarrow> 'c option \<Rightarrow> jsstring \<Rightarrow>
    error + FeishuMessageInfo option" where
  "getMessageFeishu b createFeishuClient feishuCfg msgId =
     (case feishuCfg of
        None \<Rightarrow> Inl ChannelNotConfigured
      | Some fc \<Rightarrow>
          (case createFeishuClient fc of
             Inl e \<Rightarrow> Inl e
           | Inr cl \<Rightarrow>
               (case im_message_get cl msgId of
                  Inl e \<Rightarrow> Inr None
                | Inr response \<Rightarrow>
                    if code response \<noteq> Some 0 then Inr None
                    else (case orElse (data_items response) [] of
                            [] \<Rightarrow> Inr None
                          | item # _ \<Rightarrow> Inr (Some (toMessageInfo b msgId item))))))"

record FeishuHistoryMessage =
  hm_messageId :: jsstring
  hm_senderId :: jsstring
  hm_senderType :: jsstring
  hm_content :: jsstring
  hm_contentType :: jsstring
  hm_createTime :: jsnum
  hm_deleted :: "bool option"

record ListMessagesResult =
  messages :: "FeishuHistoryMessage list"
  hasMore :: bool
  pageToken :: "jsstring option"
  total :: nat

record list_params =
  chatId :: jsstring
  count :: "int option"
  startTime :: "jsstring option"
  endTime :: "jsstring option"
  firstPageToken :: "jsstring option"
  sortType :: "jsstring option"

text \<open>The \<open>else if\<close> chain of lines 163-179: a placeholder for a message that is not text.\<close>

definition placeholder :: "jsstring option \<Rightarrow> jsstring \<Rightarrow> jsstring" where
  "placeholder ty content =
     (if ty = Some (str ''image'') then [91, 22270, 29255, 93]
      else if ty = Some (str ''file'') then [91, 25991, 20214, 93]
      else if ty = Some (str ''audio'') then [91, 35821, 38899, 93]
      else if ty = Some (str ''video'') then [91, 35270, 39057, 93]
      else if ty = Some (str ''sticker'') then [91, 34920, 24773, 93]
      else if ty = Some (str ''interactive'') then [91, 21345, 29255, 28040, 24687, 93]
      else if ty = Some (str ''share_chat'') then [91, 20998, 20139, 32676, 32842, 93]
      else if ty = Some (str ''share_user'') then [91, 20998, 20139, 29992, 25143, 93]
      else content)"

text \<open>
  Lines 158-182 of \<open>listMessagesFeishu\<close>. On \<open>null\<close> the condition of line 161 throws
  for a text message, when it reads \<open>parsed.text\<close>, and the raw content is kept; for
  another type the \<open>&&\<close> does not read it and the chain goes on.
\<close>

definition listContent :: "builtins \<Rightarrow> api_item \<Rightarrow> jsstring" where
  "listContent b item =
     (let content = orElse (body_content item) []
      in case JSON_parse b content of
           SyntaxError \<Rightarrow> content
         | JNull \<Rightarrow>
             if msg_type item = Some (str ''text'') then content
             else placeholder (msg_type item) content
         | JValue t \<Rightarrow>
             if msg_type item = Some (str ''text'') \<and> truthy t then orElse t []
             else placeholder (msg_type item) content)"

definition toHistoryMessage :: "builtins \<Rightarrow> api_item \<Rightarrow> FeishuHistoryMessage" where
  "toHistoryMessage b item =
     \<lparr> hm_messageId = orElse (message_id item) [],
       hm_senderId = orElse (senderField sender_id item) [],
       hm_senderType = orElse (senderField sender_type item) [],
       hm_content = listContent b item,
       hm_contentType = orElse (msg_type item) (str ''text''),
       hm_createTime =
         (if truthy (create_time item) then parseInt10 b (orElse (create_time item) [])
          else Num 0),
       hm_deleted = deleted item \<rparr>"

text \<open>The inner loop, lines 154-193: it breaks once \<open>count\<close> messages are there.\<close>

fun pushItems :: "builtins \<Rightarrow> int \<Rightarrow> FeishuHistoryMessage list \<Rightarrow> api_item list \<Rightarrow>
    FeishuHistoryMessage list" where
  "pushItems b cnt msgs [] = msgs"
| "pushItems b cnt msgs (item # rest) =
     (if int (length msgs) \<ge> cnt then msgs
      else pushItems b cnt (msgs @ [toHistoryMessage b item]) rest)"

record list_state =
  ls_messages :: "FeishuHistoryMessage list"
  ls_hasMore :: bool
  ls_currentPageToken :: "jsstring option"

text \<open>
  The \<open>while\<close> loop, lines 136-201. The server decides how many pages there are, so the
  loop takes fuel: \<open>None\<close> is a loop that has not ended when the fuel is used up.
\<close>

fun listLoop :: "nat \<Rightarrow> builtins \<Rightarrow> client \<Rightarrow> list_params \<Rightarrow> int \<Rightarrow> list_state \<Rightarrow>
    (error + list_state) option" where
  "listLoop fuel b cl ps cnt st =
     (if ls_hasMore st \<and> int (length (ls_messages st)) < cnt then
        (case fuel of
           0 \<Rightarrow> None
         | Suc fuel' \<Rightarrow>
             (case im_message_list cl
                     \<lparr> container_id = chatId ps, page_size = min 50 cnt,
                       req_page_token = ls_currentPageToken st,
                       start_time = startTime ps, end_time = endTime ps,
                       sort_type = orElse (sortType ps) (str ''ByCreateTimeDesc'') \<rparr> of
                Inl e \<Rightarrow> Some (Inl e)
              | Inr response \<Rightarrow>
                  if code response \<noteq> Some 0 then Some (Inl ListMessagesFailed)
                  else listLoop fuel' b cl ps cnt
                         \<lparr> ls_messages =
                             pushItems b cnt (ls_messages st) (orElse (data_items response) []),
                           ls_hasMore =
                             (if truthy (page_token response) then orElse (has_more response) False
                              else False),
                           ls_currentPageToken = page_token response \<rparr>))
      else Some (Inr st))"

definition listMessagesFeishu :: "nat \<Rightarrow> builtins \<Rightarrow> ('c \<Rightarrow> error + client) \<Rightarrow> 'c option \<Rightarrow>
    list_params \<Rightarrow> (error + ListMessagesResult) option" where
  "listMessagesFeishu fuel b createFeishuClient feishuCfg ps =
     (case feishuCfg of
        None \<Rightarrow> Some (Inl ChannelNotConfigured)
      | Some fc \<Rightarrow>
          (case createFeishuClient fc of
             Inl e \<Rightarrow> Some (Inl e)
           | Inr cl \<Rightarrow>
               (case listLoop fuel b cl ps (orElse (count ps) 200)
                       \<lparr> ls_messages = [], ls_hasMore = True,
                         ls_currentPageToken = firstPageToken ps \<rparr> of
                  None \<Rightarrow> None
                | Some (Inl e) \<Rightarrow> Some (Inl e)
                | Some (Inr st) \<Rightarrow>
                    Some (Inr \<lparr> messages = ls_messages st, hasMore = ls_hasMore st,
                                pageToken = ls_currentPageToken st,
                                total = length (ls_messages st) \<rparr>))))"


section \<open>One turn: handleFeishuMessage\<close>

record HistoryEntry =
  entry_sender :: jsstring
  entry_body :: jsstring
  entry_timestamp :: int
  entry_messageId :: "jsstring option"

type_synonym history_map = "jsstring \<rightharpoonup> HistoryEntry list"

text \<open>
  Modelled from the spec: \<open>buildPendingHistoryContextFromMap\<close> of the plugin SDK, which
  is not among the sources: it renders all buffered entries of the key, oldest first,
  through \<open>formatEntry\<close>, concatenates them ahead of \<open>currentMessage\<close> and returns the
  combined text; it does not change the buffer.
\<close>

definition buildPendingHistoryContextFromMap ::
    "history_map \<Rightarrow> jsstring \<Rightarrow> int \<Rightarrow> jsstring \<Rightarrow> (HistoryEntry \<Rightarrow> jsstring) \<Rightarrow> jsstring" where
  "buildPendingHistoryContextFromMap historyMap historyKey limit currentMessage formatEntry =
     concat (map formatEntry (orElse (historyMap historyKey) [])) @ currentMessage"

text \<open>
  Modelled from the spec: \<open>clearHistoryEntriesIfEnabled\<close> of the plugin SDK, which is
  not among the sources: it empties the buffer of the key if the limit is positive.
\<close>

definition clearHistoryEntriesIfEnabled :: "history_map \<Rightarrow> jsstring \<Rightarrow> int \<Rightarrow> history_map" where
  "clearHistoryEntriesIfEnabled historyMap historyKey limit =
     (if limit > 0 then historyMap(historyKey \<mapsto> []) else historyMap)"

text \<open>
  What a turn does that the world can see: the fetches that feed the message body (the
  quoted message, the voice transcription, the chat history a user asks for), the
  dispatch to the agent with the body it is given, and the transport calls of the reply
  dispatcher while the dispatch runs.
\<close>

datatype inbound_fetch = QuotedMessage | VoiceTranscription | ChatHistory

datatype turn_event =
    Fetched inbound_fetch
  | Dispatched jsstring
  | Replied io_event

text \<open>
  A message that has passed the policy checks of lines 251-321, and the collaborators of
  the \<open>try\<close> block with what they answer in this turn:
  \<^item> \<open>resolveAgentRoute\<close>: \<open>Inl\<close> when route resolution throws (lines 324-346);
  \<^item> \<open>quotedMessage\<close>: the outcome of \<open>getMessageFeishu\<close> on the parent id (line 352);
  \<^item> \<open>audioFileKey\<close>: \<^verbatim>\<open>JSON.parse(ctx.content).file_key\<close>, \<open>Inl\<close> when it throws
    (lines 371-372), and \<open>downloadAndTranscribeVoice\<close>, the transcription (line 378);
  \<^item> \<open>historyRequested\<close>: \<open>isHistoryRequest(ctx.content)\<close>, and
    \<open>fetchChatHistoryForAgent\<close>, the total and the formatted history (line 408);
  \<^item> \<open>showNumber\<close>: a number inside a template literal;
  \<^item> \<open>formatAgentEnvelope\<close>, of the sender label, the timestamp and the body;
  \<^item> \<open>dispatchReplyFromConfig\<close>, of the body of the context payload: the transport
    events of the reply, and whether it returns or throws.
\<close>

record turn =
  isGroup :: bool
  ctx_chatId :: jsstring
  ctx_senderOpenId :: jsstring
  ctx_content :: jsstring
  ctx_contentType :: jsstring
  ctx_parentId :: "jsstring option"
  historyLimit :: int
  chatHistories :: "history_map option"
  clock :: int
  resolveAgentRoute :: "error + unit"
  quotedMessage :: "error + FeishuMessageInfo option"
  audioFileKey :: "error + jsstring option"
  downloadAndTranscribeVoice :: "error + jsstring"
  historyRequested :: bool
  fetchChatHistoryForAgent :: "error + nat \<times> jsstring"
  showNumber :: "nat \<Rightarrow> jsstring"
  formatAgentEnvelope :: "jsstring \<Rightarrow> int \<Rightarrow> jsstring \<Rightarrow> jsstring"
  dispatchReplyFromConfig :: "jsstring \<Rightarrow> io_event list \<times> (error + unit)"

text \<open>Lines 348-360: the content of the quoted message; a failed fetch is logged.\<close>

definition quotedContent :: "turn \<Rightarrow> jsstring option" where
  "quotedContent t =
     (if truthy (ctx_parentId t)
      then (case quotedMessage t of
              Inl e \<Rightarrow> None
            | Inr None \<Rightarrow> None
            | Inr (Some quotedMsg) \<Rightarrow> Some (info_content quotedMsg))
      else None)"

text \<open>Lines 365-392: the transcription of a voice message; errors are logged.\<close>

definition voiceTranscription :: "turn \<Rightarrow> jsstring" where
  "voiceTranscription t =
     (if ctx_contentType t = str ''audio''
      then (case audioFileKey t of
              Inl e \<Rightarrow> []
            | Inr fileKey \<Rightarrow>
                if truthy fileKey
                then (case downloadAndTranscribeVoice t of Inl e \<Rightarrow> [] | Inr v \<Rightarrow> v)
                else [])
      else [])"

text \<open>Lines 404-423: the chat history a group message asks for, between two rulers.\<close>

definition historyContext :: "turn \<Rightarrow> jsstring" where
  "historyContext t =
     (if isGroup t \<and> historyRequested t
      then (case fetchChatHistoryForAgent t of
              Inl e \<Rightarrow> []
            | Inr (n, formatted) \<Rightarrow>
                if formatted \<noteq> []
                then [10, 10, 45, 45, 45, 32, 32676, 32842, 21382, 21490, 35760, 24405, 32, 40,
                      26368, 36817, 32] @ showNumber t n @
                     [32, 26465, 28040, 24687, 41, 32, 45, 45, 45, 10] @ formatted @
                     [10, 45, 45, 45, 32, 21382, 21490, 35760, 24405, 32467, 26463, 32, 45, 45, 45,
                      10, 10]
                else [])
      else [])"

text \<open>Lines 394-428: the message body, from the content and what was fetched.\<close>

definition messageBody :: "turn \<Rightarrow> jsstring" where
  "messageBody t =
     (let b1 = (if voiceTranscription t \<noteq> []
                then [91, 35821, 38899, 36716, 20889, 93, 58, 32] @ voiceTranscription t @
                     [10, 10] @ ctx_content t
                else ctx_content t);
          b2 = (if truthy (quotedContent t)
                then str ''[Replying to: \"'' @ orElse (quotedContent t) [] @ str ''\"]'' @
                     [10, 10] @ b1
                else b1)
      in if historyContext t \<noteq> [] then historyContext t @ b2 else b2)"

text \<open>The fetches of lines 348-423 that are made, in order, whatever they answer.\<close>

definition fetches :: "turn \<Rightarrow> inbound_fetch list" where
  "fetches t =
     (if truthy (ctx_parentId t) then [QuotedMessage] else []) @
     (if ctx_contentType t = str ''audio'' \<and>
         (case audioFileKey t of Inl e \<Rightarrow> False | Inr fileKey \<Rightarrow> truthy fileKey)
      then [VoiceTranscription] else []) @
     (if isGroup t \<and> historyRequested t then [ChatHistory] else [])"

text \<open>The \<open>formatEntry\<close> closure of lines 447-454.\<close>

definition formatEntry :: "turn \<Rightarrow> HistoryEntry \<Rightarrow> jsstring" where
  "formatEntry t entry =
     formatAgentEnvelope t (ctx_chatId t) (entry_timestamp entry)
       (entry_sender entry @ str '': '' @ entry_body entry)"

text \<open>\<^verbatim>\<open>isGroup && historyKey && chatHistories\<close>, with \<^verbatim>\<open>historyKey = isGroup ? ctx.chatId : undefined\<close>.\<close>

definition usesHistory :: "turn \<Rightarrow> bool" where
  "usesHistory t = (isGroup t \<and> ctx_chatId t \<noteq> [] \<and> chatHistories t \<noteq> None)"

text \<open>Lines 430-456: the body of the payload, with the pending history ahead of it.\<close>

definition combinedBody :: "turn \<Rightarrow> jsstring" where
  "combinedBody t =
     (let body = formatAgentEnvelope t (if isGroup t then ctx_chatId t else ctx_senderOpenId t)
                   (clock t) (messageBody t)
      in if usesHistory t
         then buildPendingHistoryContextFromMap (orElse (chatHistories t) Map.empty)
                (ctx_chatId t) (historyLimit t) body (formatEntry t)
         else body)"

text \<open>
  The \<open>try\<close> block of \<open>handleFeishuMessage\<close>, lines 323-510. The result is the error
  the \<open>catch\<close> logs, if any, the history map afterwards (the map is changed in place)
  and the events in order. \<open>markDispatchIdle\<close> and the log calls change nothing of this.
\<close>

definition handleFeishuMessage :: "turn \<Rightarrow> error option \<times> history_map option \<times> turn_event list" where
  "handleFeishuMessage t =
     (case resolveAgentRoute t of
        Inl e \<Rightarrow> (Some e, chatHistories t, [])
      | Inr route \<Rightarrow>
          (case dispatchReplyFromConfig t (combinedBody t) of
             (evs, Inl e) \<Rightarrow>
               (Some e, chatHistories t,
                map Fetched (fetches t) @ [Dispatched (combinedBody t)] @ map Replied evs)
           | (evs, Inr u) \<Rightarrow>
               (None,
                (if usesHistory t
                 then Some (clearHistoryEntriesIfEnabled (orElse (chatHistories t) Map.empty)
                              (ctx_chatId t) (historyLimit t))
                 else chatHistories t),
                map Fetched (fetches t) @ [Dispatched (combinedBody t)] @ map Replied evs)))"

section \<open>Descriptions used by the properties\<close>

text \<open>
  The sends a delivery plans, in order, and the events of sending a list of calls one
  after the other until one fails.
\<close>

definition plannedSends :: "deliver_env \<Rightarrow> jsstring \<Rightarrow> transport_call list" where
  "plannedSends env text =
     (if useCard (renderMode env) text
      then map SendMarkdownCardFeishu (chunkTextWithMode env text)
      else map SendMessageFeishu (chunkTextWithMode env (convertMarkdownTables env text)))"

definition sequentialTrace :: "(nat \<Rightarrow> bool) \<Rightarrow> transport_call list \<Rightarrow> io_event list" where
  "sequentialTrace fails cs =
     (let j = firstFailure fails 0 (length cs)
      in concat (map (\<lambda>c. [Started c, Completed c True]) (take j cs)) @
         (if j < length cs then [Started (cs ! j), Completed (cs ! j) False] else []))"


text \<open>
  For the proofs about creation: a creation is in flight exactly while the promise is
  held, and none is once a message id is recorded.
\<close>

definition oneCreation :: "stream \<Rightarrow> bool" where
  "oneCreation s =
     (length (filter isInitTask (inflight s)) = (if initializationPromise s then 1 else 0) \<and>
      (hasMessageId s \<longrightarrow> \<not> initializationPromise s))"

text \<open>Two states with the same creations in flight, promise, message id and creations issued.\<close>

definition sameCreation :: "stream \<Rightarrow> stream \<Rightarrow> bool" where
  "sameCreation s s' =
     (filter isInitTask (inflight s') = filter isInitTask (inflight s) \<and>
      initializationPromise s' = initializationPromise s \<and>
      messageId s' = messageId s \<and>
      creations s' = creations s)"

section \<open>Example inputs\<close>

text \<open>A chunker that cuts after the first code unit, and a dispatcher at rest.\<close>

definition cutAfterFirst :: "jsstring \<Rightarrow> jsstring list" where
  "cutAfterFirst t = [take 1 t, drop 1 t]"

definition exampleEnv :: deliver_env where
  "exampleEnv = \<lparr> renderMode = None, chunkTextWithMode = cutAfterFirst,
                  convertMarkdownTables = id \<rparr>"

definition idleDispatcher :: dispatcher where
  "idleDispatcher = \<lparr> typingState = None, currentStream = None, io = [] \<rparr>"

definition onlyFirstFails :: "nat \<Rightarrow> bool" where
  "onlyFirstFails k = (k = 0)"

definition neverFails :: "nat \<Rightarrow> bool" where
  "neverFails k = False"





text \<open>A client whose server knows one text message, and one whose pages never end.\<close>

definition exampleBuiltins :: builtins where
  "exampleBuiltins = \<lparr> JSON_parse = (\<lambda>c. if c = str ''{\"text\":\"hi\"}'' then JValue (Some (str ''hi'')) else SyntaxError),
     parseInt10 = (\<lambda>c. if c = str ''1700000000000'' then Num 1700000000000 else NaN) \<rparr>"

definition exampleItem :: api_item where
  "exampleItem = \<lparr> message_id = Some (str ''om_1''), chat_id = Some (str ''oc_1''),
     msg_type = Some (str ''text''), body_content = Some (str ''{\"text\":\"hi\"}''),
     sender = Some \<lparr> sender_id = Some (str ''ou_1''), id_type = Some (str ''open_id''),
                     sender_type = Some (str ''user'') \<rparr>,
     create_time = Some (str ''1700000000000''), deleted = None \<rparr>"

definition exampleResponse :: api_response where
  "exampleResponse = \<lparr> code = Some 0, msg = None, data_items = Some [exampleItem],
     has_more = Some False, page_token = None \<rparr>"

definition exampleClient :: client where
  "exampleClient = \<lparr> im_message_get = (\<lambda>m. if m = str ''om_1'' then Inr exampleResponse else Inl TransportError),
     im_message_list = (\<lambda>r. Inr exampleResponse) \<rparr>"

definition exampleCreateClient :: "unit \<Rightarrow> error + client" where
  "exampleCreateClient u = Inr exampleClient"

definition examplePage :: api_response where
  "examplePage = \<lparr> code = Some 0, msg = None, data_items = Some [exampleItem, exampleItem],
     has_more = Some True, page_token = Some (str ''next'') \<rparr>"

definition examplePagedClient :: "unit \<Rightarrow> error + client" where
  "examplePagedClient u = Inr \<lparr> im_message_get = (\<lambda>m. Inl TransportError),
                               im_message_list = (\<lambda>r. Inr examplePage) \<rparr>"

definition exampleParams :: list_params where
  "exampleParams = \<lparr> chatId = str ''oc_1'', count = Some 1, startTime = None, endTime = None,
                     firstPageToken = None, sortType = None \<rparr>"

text \<open>
  A group message that quotes another one, with one suppressed message buffered for its
  chat; an envelope that is the body and a semicolon; a dispatch whose reply is one text
  message, and one that throws.
\<close>

definition exampleEntry :: HistoryEntry where
  "exampleEntry = \<lparr> entry_sender = str ''ou_2'', entry_body = str ''earlier'',
                    entry_timestamp = 5, entry_messageId = Some (str ''om_0'') \<rparr>"

definition bodyOnly :: "jsstring \<Rightarrow> int \<Rightarrow> jsstring \<Rightarrow> jsstring" where
  "bodyOnly sender_label ts body = body @ str '';''"

definition dispatchSends :: "jsstring \<Rightarrow> io_event list \<times> (error + unit)" where
  "dispatchSends body =
     ([Started (SendMessageFeishu (str ''ok'')), Completed (SendMessageFeishu (str ''ok'')) True],
      Inr ())"

definition dispatchThrows :: "jsstring \<Rightarrow> io_event list \<times> (error + unit)" where
  "dispatchThrows body = ([], Inl CollaboratorError)"

definition exampleQuoted :: FeishuMessageInfo where
  "exampleQuoted = \<lparr> info_messageId = str ''om_1'', info_chatId = str ''oc_1'',
     info_senderId = Some (str ''ou_1''), info_senderOpenId = Some (str ''ou_1''),
     info_content = str ''hi'', info_contentType = str ''text'', info_createTime = None \<rparr>"

definition exampleTurn :: turn where
  "exampleTurn = \<lparr> isGroup = True, ctx_chatId = str ''oc_1'', ctx_senderOpenId = str ''ou_1'',
     ctx_content = str ''hello'', ctx_contentType = str ''text'', ctx_parentId = Some (str ''om_1''),
     historyLimit = 3, chatHistories = Some [str ''oc_1'' \<mapsto> [exampleEntry]], clock = 9,
     resolveAgentRoute = Inr (), quotedMessage = Inr (Some exampleQuoted),
     audioFileKey = Inr None, downloadAndTranscribeVoice = Inl TransportError,
     historyRequested = False, fetchChatHistoryForAgent = Inl TransportError, showNumber = replicate 1,
     formatAgentEnvelope = bodyOnly, dispatchReplyFromConfig = dispatchSends \<rparr>"

definition exampleFailingTurn :: turn where
  "exampleFailingTurn = exampleTurn \<lparr> dispatchReplyFromConfig := dispatchThrows \<rparr>"

section \<open>Properties of the patterns\<close>

lemma matchPrefix_iff: "matchPrefix r s \<longleftrightarrow> (\<exists>u v. s = u @ v \<and> matchesAll r u)"
proof (induction r s rule: matchPrefix.induct)
  case (1 s)
  then show ?case by simp
next
  case (2 p r)
  then show ?case by simp
next
  case (3 p r c cs)
  then show ?case by (auto simp: Cons_eq_append_conv)
next
  case (4 p r)
  then show ?case by auto
next
  case (5 p r c cs)
  show ?case
  proof
    assume "matchPrefix (Many p # r) (c # cs)"
    then consider "matchPrefix r (c # cs)" | "p c" "matchPrefix (Many p # r) cs" by auto
    then show "\<exists>u v. c # cs = u @ v \<and> matchesAll (Many p # r) u"
    proof cases
      case 1
      with 5 obtain u v where "c # cs = u @ v" "matchesAll r u" by auto
      then have "c # cs = u @ v \<and> matchesAll (Many p # r) u"
        by (auto intro: exI[of _ "[]"])
      then show ?thesis by blast
    next
      case 2
      with 5 obtain u v where uv: "cs = u @ v" "matchesAll (Many p # r) u" by auto
      then obtain a w where aw: "u = a @ w" "\<forall>c\<in>set a. p c" "matchesAll r w" by auto
      have "c # u = (c # a) @ w \<and> (\<forall>x\<in>set (c # a). p x) \<and> matchesAll r w"
        using aw 2(1) by simp
      then have "matchesAll (Many p # r) (c # u)"
        unfolding matchesAll.simps by blast
      with uv show ?thesis by (intro exI[of _ "c # u"] exI[of _ v]) simp
    qed
  next
    assume "\<exists>u v. c # cs = u @ v \<and> matchesAll (Many p # r) u"
    then obtain u v a w where h: "c # cs = u @ v" "u = a @ w" "\<forall>c\<in>set a. p c" "matchesAll r w"
      by auto
    show "matchPrefix (Many p # r) (c # cs)"
    proof (cases a)
      case Nil
      with h have "matchPrefix r (c # cs)" using 5 by auto
      then show ?thesis by simp
    next
      case (Cons a1 as)
      with h have "a1 = c" "cs = (as @ w) @ v" "p c" by auto
      moreover have "matchesAll (Many p # r) (as @ w)" using h Cons by auto
      ultimately have "matchPrefix (Many p # r) cs" using 5(2) by blast
      with \<open>p c\<close> show ?thesis by simp
    qed
  qed
next
  case (6 p r)
  then show ?case by simp
next
  case (7 p r c cs)
  show ?case
  proof
    assume "matchPrefix (Many1 p # r) (c # cs)"
    with 7 obtain u v a w where h: "p c" "cs = u @ v" "u = a @ w" "\<forall>c\<in>set a. p c" "matchesAll r w"
      by auto
    have "c # u = (c # a) @ w \<and> c # a \<noteq> [] \<and> (\<forall>x\<in>set (c # a). p x) \<and> matchesAll r w"
      using h by simp
    then have "matchesAll (Many1 p # r) (c # u)"
      unfolding matchesAll.simps by blast
    with h show "\<exists>u v. c # cs = u @ v \<and> matchesAll (Many1 p # r) u"
      by (intro exI[of _ "c # u"] exI[of _ v]) simp
  next
    assume "\<exists>u v. c # cs = u @ v \<and> matchesAll (Many1 p # r) u"
    then obtain u v a w where h: "c # cs = u @ v" "u = a @ w" "a \<noteq> []" "\<forall>c\<in>set a. p c" "matchesAll r w"
      by auto
    then obtain as where a: "a = c # as" by (cases a) auto
    with h have pc: "p c" and cs: "cs = (as @ w) @ v" by auto
    have m: "matchesAll (Many p # r) (as @ w)" using h a by auto
    have "matchPrefix (Many p # r) cs" using 7 pc cs m by blast
    with pc show "matchPrefix (Many1 p # r) (c # cs)" by simp
  qed
qed

lemma regexTest_iff: "regexTest r s \<longleftrightarrow> (\<exists>pre u post. s = pre @ u @ post \<and> matchesAll r u)"
proof (induction s)
  case Nil
  then show ?case by (simp add: matchPrefix_iff)
next
  case (Cons c cs)
  show ?case
  proof
    assume "regexTest r (c # cs)"
    then consider "matchPrefix r (c # cs)" | "regexTest r cs" by auto
    then show "\<exists>pre u post. c # cs = pre @ u @ post \<and> matchesAll r u"
    proof cases
      case 1
      then obtain u v where "c # cs = u @ v" "matchesAll r u" by (auto simp: matchPrefix_iff)
      then show ?thesis by (intro exI[of _ "[]"] exI[of _ u] exI[of _ v]) simp
    next
      case 2
      with Cons obtain pre u post where "cs = pre @ u @ post" "matchesAll r u" by auto
      then show ?thesis by (intro exI[of _ "c # pre"] exI[of _ u] exI[of _ post]) simp
    qed
  next
    assume "\<exists>pre u post. c # cs = pre @ u @ post \<and> matchesAll r u"
    then obtain pre u post where h: "c # cs = pre @ u @ post" "matchesAll r u" by auto
    show "regexTest r (c # cs)"
    proof (cases pre)
      case Nil
      with h have "matchPrefix r (c # cs)" by (auto simp: matchPrefix_iff)
      then show ?thesis by simp
    next
      case (Cons p ps)
      with h have "cs = ps @ u @ post" by simp
      with h Cons.IH have "regexTest r cs" using \<open>cs = ps @ u @ post\<close> Spec2Isabelle.regexTest.simps
        by (metis Cons.IH)
      then show ?thesis by simp
    qed
  qed
qed

section \<open>Properties of the reply dispatcher\<close>

lemma trim_empty_iff: "trim s = [] \<longleftrightarrow> (\<forall>c\<in>set s. isTrimmed c)"
proof
  assume "trim s = []"
  then have "dropWhile isTrimmed (rev (dropWhile isTrimmed s)) = []"
    by (simp add: trim_def)
  then have "\<forall>c\<in>set (dropWhile isTrimmed s). isTrimmed c"
    by (simp add: dropWhile_eq_Nil_conv)
  moreover have "dropWhile isTrimmed s \<noteq> [] \<Longrightarrow> \<not> isTrimmed (hd (dropWhile isTrimmed s))"
    by (rule hd_dropWhile)
  ultimately have "dropWhile isTrimmed s = []"
    by (cases "dropWhile isTrimmed s") auto
  then show "\<forall>c\<in>set s. isTrimmed c"
    by (simp add: dropWhile_eq_Nil_conv)
next
  assume "\<forall>c\<in>set s. isTrimmed c"
  then have e: "dropWhile isTrimmed s = []"
    by (simp add: dropWhile_eq_Nil_conv)
  show "trim s = []"
    unfolding trim_def e by simp
qed

text \<open>
  Claim C8. A final delivery whose payload text is missing, empty or made of white space
  only returns normally and changes nothing: no transport call is started, in either
  version of \<open>deliver\<close>, also when a streaming card is active.
\<close>

theorem deliver_blank_text_sends_nothing:
  assumes "\<forall>c\<in>set (case payloadText of None \<Rightarrow> [] | Some t \<Rightarrow> t). isWhiteSpace c \<or> isLineTerminator c"
  shows "deliver env fails payloadText d = (Inr (), d) \<and>
         deliver_plain env fails payloadText d = (Inr (), d)"
proof -
  from assms have "trim (case payloadText of None \<Rightarrow> [] | Some t \<Rightarrow> t) = []"
    by (simp add: trim_empty_iff isTrimmed_def)
  then show ?thesis
    by (simp add: deliver_def deliver_plain_def)
qed

theorem deliver_blank_text_sends_nothing_witness:
  "deliver \<lparr> renderMode = None, chunkTextWithMode = (\<lambda>t. [t]), convertMarkdownTables = (\<lambda>t. t) \<rparr>
     (\<lambda>k. False) (Some [32, 10, 9])
     \<lparr> typingState = None, currentStream = Some (newStream 0), io = [] \<rparr>
   = (Inr (), \<lparr> typingState = None, currentStream = Some (newStream 0), io = [] \<rparr>)"
  using deliver_blank_text_sends_nothing
    [of "Some [32, 10, 9]"
        "\<lparr> renderMode = None, chunkTextWithMode = (\<lambda>t. [t]), convertMarkdownTables = (\<lambda>t. t) \<rparr>"
        "\<lambda>k. False"
        "\<lparr> typingState = None, currentStream = Some (newStream 0), io = [] \<rparr>"]
  by (simp add: isWhiteSpace_def isLineTerminator_def)




section \<open>The render decision\<close>

lemma str_fence: "str ''```'' = [BACKTICK, BACKTICK, BACKTICK]"
  by (simp add: str_def BACKTICK_def)

lemma matchesAll_FENCE_RE:
  "matchesAll FENCE_RE u \<longleftrightarrow> (\<exists>body. u = str ''```'' @ body @ str ''```'')"
  by (auto simp: FENCE_RE_def lit_def str_fence)

lemma matchesAll_TABLE_RE:
  "matchesAll TABLE_RE u \<longleftrightarrow>
     (\<exists>row brk sep. u = [PIPE] @ row @ [PIPE] @ brk @ [PIPE] @ sep @ [PIPE] \<and>
        row \<noteq> [] \<and> (\<forall>c\<in>set row. \<not> isLineTerminator c) \<and>
        brk \<noteq> [] \<and> (\<forall>c\<in>set brk. c = CR \<or> c = LF) \<and>
        sep \<noteq> [] \<and> (\<forall>c\<in>set sep. c = DASH \<or> c = COLON \<or> c = PIPE \<or> c = SPACE))"
  by (simp add: TABLE_RE_def lit_def) blast

lemma regexTest_FENCE_RE: "regexTest FENCE_RE text \<longleftrightarrow> spec_fencedCodeBlock text"
  unfolding regexTest_iff matchesAll_FENCE_RE spec_fencedCodeBlock_def
  by (metis append.assoc)

lemma regexTest_TABLE_RE: "regexTest TABLE_RE text \<longleftrightarrow> spec_markdownTable text"
proof
  assume "regexTest TABLE_RE text"
  then obtain pre u post row brk sep where
    "text = pre @ u @ post" "u = [PIPE] @ row @ [PIPE] @ brk @ [PIPE] @ sep @ [PIPE]"
    "row \<noteq> []" "\<forall>c\<in>set row. \<not> isLineTerminator c"
    "brk \<noteq> []" "\<forall>c\<in>set brk. c = CR \<or> c = LF"
    "sep \<noteq> []" "\<forall>c\<in>set sep. c = DASH \<or> c = COLON \<or> c = PIPE \<or> c = SPACE"
    unfolding regexTest_iff matchesAll_TABLE_RE by blast
  then have "text = pre @ [PIPE] @ row @ [PIPE] @ brk @ [PIPE] @ sep @ [PIPE] @ post \<and>
        row \<noteq> [] \<and> (\<forall>c\<in>set row. \<not> isLineTerminator c) \<and>
        brk \<noteq> [] \<and> (\<forall>c\<in>set brk. c = CR \<or> c = LF) \<and>
        sep \<noteq> [] \<and> (\<forall>c\<in>set sep. c = DASH \<or> c = COLON \<or> c = PIPE \<or> c = SPACE)"
    by simp
  then show "spec_markdownTable text"
    unfolding spec_markdownTable_def by blast
next
  assume "spec_markdownTable text"
  then obtain pre row brk sep post where h:
    "text = pre @ [PIPE] @ row @ [PIPE] @ brk @ [PIPE] @ sep @ [PIPE] @ post"
    "row \<noteq> []" "\<forall>c\<in>set row. \<not> isLineTerminator c"
    "brk \<noteq> []" "\<forall>c\<in>set brk. c = CR \<or> c = LF"
    "sep \<noteq> []" "\<forall>c\<in>set sep. c = DASH \<or> c = COLON \<or> c = PIPE \<or> c = SPACE"
    unfolding spec_markdownTable_def by blast
  define u where "u = [PIPE] @ row @ [PIPE] @ brk @ [PIPE] @ sep @ [PIPE]"
  have "matchesAll TABLE_RE u"
    unfolding matchesAll_TABLE_RE u_def using h(2-) by blast
  moreover have "text = pre @ u @ post"
    using h(1) by (simp add: u_def)
  ultimately show "regexTest TABLE_RE text"
    unfolding regexTest_iff by blast
qed

lemma shouldUseCard_iff: "shouldUseCard text \<longleftrightarrow> spec_fencedCodeBlock text \<or> spec_markdownTable text"
  by (simp add: shouldUseCard_def regexTest_FENCE_RE regexTest_TABLE_RE)

lemma str_modes:
  "str ''card'' \<noteq> str ''auto''" "str ''auto'' \<noteq> str ''card''"
  "str ''raw'' \<noteq> str ''card''" "str ''raw'' \<noteq> str ''auto''"
  by (simp_all add: str_def)

text \<open>
  Claim C7. The render decision is the function \<open>useCard\<close> of the configured mode and
  the text. Mode \<open>card\<close> selects the card for every text and mode \<open>raw\<close>, like every
  mode that is neither \<open>card\<close> nor \<open>auto\<close>, plain text. Mode \<open>auto\<close>, also as the
  default of a missing mode, selects the card exactly when the text holds a pair of
  triple-backtick fences or a table: a row between pipes, line breaks, and a separator
  row between pipes made of dashes, colons, pipes and spaces.
\<close>

theorem render_mode_selection:
  "useCard (Some (str ''card'')) text \<and>
   \<not> useCard (Some (str ''raw'')) text \<and>
   (useCard (Some (str ''auto'')) text \<longleftrightarrow> spec_fencedCodeBlock text \<or> spec_markdownTable text) \<and>
   (useCard None text \<longleftrightarrow> spec_fencedCodeBlock text \<or> spec_markdownTable text) \<and>
   (\<forall>m. m \<noteq> str ''card'' \<and> m \<noteq> str ''auto'' \<longrightarrow> \<not> useCard (Some m) text)"
  by (simp add: useCard_def resolveRenderMode_def shouldUseCard_iff str_modes)

theorem render_mode_selection_witness:
  "spec_markdownTable [124, 97, 124, 10, 124, 45, 124] \<and>
   useCard (Some (str ''auto'')) [124, 97, 124, 10, 124, 45, 124] \<and>
   \<not> useCard (Some (str ''plain'')) [124, 97, 124, 10, 124, 45, 124] \<and>
   \<not> spec_fencedCodeBlock (str ''plain hello'') \<and> \<not> spec_markdownTable (str ''plain hello'')"
proof -
  have "[124, 97, 124, 10, 124, 45, 124] = [] @ [PIPE] @ [97] @ [PIPE] @ [LF] @ [PIPE] @ [DASH] @ [PIPE] @ [] \<and>
        [97] \<noteq> [] \<and> (\<forall>c\<in>set [97]. \<not> isLineTerminator c) \<and>
        [LF] \<noteq> [] \<and> (\<forall>c\<in>set [LF]. c = CR \<or> c = LF) \<and>
        [DASH] \<noteq> [] \<and> (\<forall>c\<in>set [DASH]. c = DASH \<or> c = COLON \<or> c = PIPE \<or> c = SPACE)"
    by (simp add: PIPE_def LF_def DASH_def isLineTerminator_def)
  then have t: "spec_markdownTable [124, 97, 124, 10, 124, 45, 124]"
    unfolding spec_markdownTable_def by blast
  have p: "str ''plain'' \<noteq> str ''card'' \<and> str ''plain'' \<noteq> str ''auto''"
    by (simp add: str_def)
  have n: "\<not> useCard (Some (str ''auto'')) (str ''plain hello'')"
    by (simp add: useCard_def resolveRenderMode_def shouldUseCard_def FENCE_RE_def TABLE_RE_def
        lit_def str_def BACKTICK_def PIPE_def)
  show ?thesis
    using t p n render_mode_selection [of "[124, 97, 124, 10, 124, 45, 124]"]
      render_mode_selection [of "str ''plain hello''"]
    by blast
qed

section \<open>Chunked delivery\<close>

lemma sendChunks_closed_form:
  "sendChunks send fails k chunks evs =
     (let j = firstFailure fails k (length chunks)
      in (if j < length chunks then Inl TransportError else Inr (),
          evs @ concat (map (\<lambda>c. [Started (send c), Completed (send c) True]) (take j chunks)) @
          (if j < length chunks
           then [Started (send (chunks ! j)), Completed (send (chunks ! j)) False] else [])))"
proof (induction chunks arbitrary: k evs)
  case Nil
  then show ?case by simp
next
  case (Cons c cs)
  show ?case
  proof (cases "fails k")
    case True
    then show ?thesis by simp
  next
    case False
    then show ?thesis by (simp add: Cons.IH Let_def)
  qed
qed

lemma firstFailure_le: "firstFailure fails k n \<le> n"
  by (induction n arbitrary: k) auto

lemma firstFailure_none: "(\<forall>i<n. \<not> fails (k + i)) \<Longrightarrow> firstFailure fails k n = n"
proof (induction n arbitrary: k)
  case 0
  then show ?case by simp
next
  case (Suc n)
  have "\<not> fails k" using Suc.prems by (metis add.right_neutral zero_less_Suc)
  moreover have "\<forall>i<n. \<not> fails (Suc k + i)" using Suc.prems by (metis Suc_less_eq add_Suc_shift)
  ultimately show ?case using Suc.IH by simp
qed

lemma sendChunks_sequentialTrace:
  "sendChunks send fails 0 chunks evs =
     (if firstFailure fails 0 (length chunks) < length chunks then Inl TransportError else Inr (),
      evs @ sequentialTrace fails (map send chunks))"
proof -
  have le: "firstFailure fails 0 (length chunks) \<le> length chunks" by (rule firstFailure_le)
  show ?thesis
    unfolding sendChunks_closed_form sequentialTrace_def Let_def
    using le by (simp add: take_map o_def)
qed

lemma started_sequentialTrace:
  "filter isStarted (sequentialTrace fails cs) =
     map Started (take (Suc (firstFailure fails 0 (length cs))) cs)"
proof -
  have a: "filter isStarted (concat (map (\<lambda>c. [Started c, Completed c True]) xs)) = map Started xs" for xs
    by (induction xs) (simp_all add: isStarted_def)
  show ?thesis
    unfolding sequentialTrace_def Let_def
    by (simp add: a isStarted_def take_Suc_conv_app_nth)
qed

lemma ab_not_blank: "trim (str ''ab'') \<noteq> []"
  by (simp add: trim_def str_def isTrimmed_def isWhiteSpace_def isLineTerminator_def)

lemma ab_not_card: "\<not> useCard None (str ''ab'')"
  by (simp add: useCard_def resolveRenderMode_def shouldUseCard_def FENCE_RE_def TABLE_RE_def
        lit_def str_def BACKTICK_def PIPE_def)

text \<open>
  Claim C5, as amended. A final delivery that is not streamed sends its chunks one after
  the other in the order of the chunks: the events are those of \<open>sequentialTrace\<close>, in
  which every send is completed before the next is started. All chunks are sent when no
  send fails. The first send that fails ends the delivery with its error, and the chunks
  after it are never sent: the sends started are the chunks up to and with the failing
  one. The same holds of the dispatcher without cards.
\<close>

theorem deliver_sends_chunks_in_order:
  assumes "trim text \<noteq> []" and "currentStream d = None"
  shows "io (snd (deliver env fails (Some text) d)) = io d @ sequentialTrace fails (plannedSends env text) \<and>
     fst (deliver env fails (Some text) d) =
       (if firstFailure fails 0 (length (plannedSends env text)) < length (plannedSends env text)
        then Inl TransportError else Inr ()) \<and>
     io (snd (deliver_plain env fails (Some text) d)) =
       io d @ sequentialTrace fails
                (map SendMessageFeishu (chunkTextWithMode env (convertMarkdownTables env text))) \<and>
     (\<forall>cs. filter isStarted (sequentialTrace fails cs) =
             map Started (take (Suc (firstFailure fails 0 (length cs))) cs)) \<and>
     (\<forall>cs. (\<forall>k < length cs. \<not> fails k) \<longrightarrow>
             sequentialTrace fails cs = concat (map (\<lambda>c. [Started c, Completed c True]) cs))"
proof -
  have 1: "io (snd (deliver env fails (Some text) d)) = io d @ sequentialTrace fails (plannedSends env text)"
    using assms by (simp add: deliver_def plannedSends_def sendChunks_sequentialTrace Let_def)
  have 2: "fst (deliver env fails (Some text) d) =
       (if firstFailure fails 0 (length (plannedSends env text)) < length (plannedSends env text)
        then Inl TransportError else Inr ())"
    using assms by (simp add: deliver_def plannedSends_def sendChunks_sequentialTrace Let_def)
  have 3: "io (snd (deliver_plain env fails (Some text) d)) =
       io d @ sequentialTrace fails
                (map SendMessageFeishu (chunkTextWithMode env (convertMarkdownTables env text)))"
    using assms by (simp add: deliver_plain_def sendChunks_sequentialTrace Let_def)
  have 4: "(\<forall>k < length cs. \<not> fails k) \<longrightarrow>
        sequentialTrace fails cs = concat (map (\<lambda>c. [Started c, Completed c True]) cs)" for cs
  proof
    assume "\<forall>k < length cs. \<not> fails k"
    then have "firstFailure fails 0 (length cs) = length cs"
      using firstFailure_none [of "length cs" fails 0] by simp
    then show "sequentialTrace fails cs = concat (map (\<lambda>c. [Started c, Completed c True]) cs)"
      by (simp add: sequentialTrace_def)
  qed
  show ?thesis using 1 2 3 4 started_sequentialTrace by blast
qed

theorem deliver_sends_chunks_in_order_witness:
  "trim (str ''ab'') \<noteq> [] \<and> currentStream idleDispatcher = None \<and>
   plannedSends exampleEnv (str ''ab'') = [SendMessageFeishu (str ''a''), SendMessageFeishu (str ''b'')] \<and>
   io (snd (deliver exampleEnv neverFails (Some (str ''ab'')) idleDispatcher)) =
     [Started (SendMessageFeishu (str ''a'')), Completed (SendMessageFeishu (str ''a'')) True,
      Started (SendMessageFeishu (str ''b'')), Completed (SendMessageFeishu (str ''b'')) True] \<and>
   fst (deliver exampleEnv neverFails (Some (str ''ab'')) idleDispatcher) = Inr ()"
proof -
  have h: "trim (str ''ab'') \<noteq> []" "currentStream idleDispatcher = None"
    using ab_not_blank by (simp_all add: idleDispatcher_def)
  have p: "plannedSends exampleEnv (str ''ab'') = [SendMessageFeishu (str ''a''), SendMessageFeishu (str ''b'')]"
    using ab_not_card by (simp add: plannedSends_def exampleEnv_def cutAfterFirst_def str_def)
  have s: "sequentialTrace neverFails [SendMessageFeishu (str ''a''), SendMessageFeishu (str ''b'')] =
     [Started (SendMessageFeishu (str ''a'')), Completed (SendMessageFeishu (str ''a'')) True,
      Started (SendMessageFeishu (str ''b'')), Completed (SendMessageFeishu (str ''b'')) True]"
    by (simp add: sequentialTrace_def neverFails_def)
  have ff: "firstFailure neverFails 0 (Suc (Suc 0)) = 2"
    by (simp add: neverFails_def)
  note t = deliver_sends_chunks_in_order [OF h, of exampleEnv neverFails]
  from t have "io (snd (deliver exampleEnv neverFails (Some (str ''ab'')) idleDispatcher)) =
      io idleDispatcher @ sequentialTrace neverFails (plannedSends exampleEnv (str ''ab''))"
    by blast
  then have a: "io (snd (deliver exampleEnv neverFails (Some (str ''ab'')) idleDispatcher)) =
     [Started (SendMessageFeishu (str ''a'')), Completed (SendMessageFeishu (str ''a'')) True,
      Started (SendMessageFeishu (str ''b'')), Completed (SendMessageFeishu (str ''b'')) True]"
    by (simp add: p s idleDispatcher_def)
  from t have "fst (deliver exampleEnv neverFails (Some (str ''ab'')) idleDispatcher) =
       (if firstFailure neverFails 0 (length (plannedSends exampleEnv (str ''ab''))) <
           length (plannedSends exampleEnv (str ''ab''))
        then Inl TransportError else Inr ())"
    by blast
  then have b: "fst (deliver exampleEnv neverFails (Some (str ''ab'')) idleDispatcher) = Inr ()"
    by (simp add: p neverFails_def)
  show ?thesis using h p a b by blast
qed

theorem deliver_failed_send_counterexample:
  "chunkTextWithMode exampleEnv (convertMarkdownTables exampleEnv (str ''ab'')) = [str ''a'', str ''b''] \<and>
   deliver exampleEnv onlyFirstFails (Some (str ''ab'')) idleDispatcher =
     (Inl TransportError, idleDispatcher \<lparr> io :=
        [Started (SendMessageFeishu (str ''a'')), Completed (SendMessageFeishu (str ''a'')) False] \<rparr>) \<and>
   deliver_plain exampleEnv onlyFirstFails (Some (str ''ab'')) idleDispatcher =
     (Inl TransportError, idleDispatcher \<lparr> io :=
        [Started (SendMessageFeishu (str ''a'')), Completed (SendMessageFeishu (str ''a'')) False] \<rparr>)"
  using ab_not_blank ab_not_card
  by (simp add: deliver_def deliver_plain_def exampleEnv_def idleDispatcher_def cutAfterFirst_def
      onlyFirstFails_def str_def)

section \<open>Properties of the streaming card\<close>

lemmas stream_defs = run_def update_def finalize_def settle_def fire_def performUpdate_def
  scheduleOrExecute_def resumeWaiter_def hasMessageId_def theMessageId_def newStream_def
  STREAM_UPDATE_INTERVAL_MS_def str_def Let_def

text \<open>
  Claim C1, as amended. On a finalized stream \<open>finalize\<close> does nothing. Otherwise it
  cancels the pending update, which then never fires. With a message id recorded it
  issues exactly one update call, carrying the final content and marked as done
  (\<open>streaming_mode\<close> false), and the stream is finalized when that call succeeds.
  Without a message id (no update yet, a creation in flight, or a creation that failed)
  it issues no call and the stream is not finalized.
\<close>

theorem finalize_behaviour:
  "(isFinalized s \<longrightarrow> finalize content s = s) \<and>
   (\<not> isFinalized s \<longrightarrow>
      pendingUpdate (finalize content s) = None \<and> fire (finalize content s) = finalize content s) \<and>
   (\<not> isFinalized s \<and> hasMessageId s \<longrightarrow>
      calls (finalize content s) = calls s @ [Patch (theMessageId s) content False] \<and>
      inflight (finalize content s) = inflight s @ [FinalizeTask] \<and>
      isFinalized (settle (length (inflight s)) (Resolved r) (finalize content s))) \<and>
   (\<not> isFinalized s \<and> \<not> hasMessageId s \<longrightarrow>
      calls (finalize content s) = calls s \<and>
      inflight (finalize content s) = inflight s \<and>
      \<not> isFinalized (finalize content s))"
  by (simp add: finalize_def fire_def settle_def hasMessageId_def theMessageId_def Let_def)

theorem finalize_behaviour_witness:
  "\<not> isFinalized (run [Update (str ''a'') False, Settle 0 (Resolved (str ''om_1''))] (newStream 0)) \<and>
   hasMessageId (run [Update (str ''a'') False, Settle 0 (Resolved (str ''om_1''))] (newStream 0)) \<and>
   calls (finalize (str ''done'')
           (run [Update (str ''a'') False, Settle 0 (Resolved (str ''om_1''))] (newStream 0))) =
     [Create (str ''a''), Patch (str ''om_1'') (str ''done'') False] \<and>
   isFinalized (settle 0 (Resolved [])
     (finalize (str ''done'')
        (run [Update (str ''a'') False, Settle 0 (Resolved (str ''om_1''))] (newStream 0))))"
  using finalize_behaviour
    [of "run [Update (str ''a'') False, Settle 0 (Resolved (str ''om_1''))] (newStream 0)"
        "str ''done''" "[]"]
  by (simp add: stream_defs)

theorem finalize_counterexample:
  "isFinalized (run [Update (str ''a'') False, Settle 0 (Resolved (str ''om_1'')),
                     Finalize (str ''done''), Settle 0 Rejected] (newStream 0)) = False \<and>
   calls (run [Update (str ''a'') False, Settle 0 (Resolved (str ''om_1'')),
               Finalize (str ''done''), Settle 0 Rejected] (newStream 0)) =
     [Create (str ''a''), Patch (str ''om_1'') (str ''done'') False] \<and>
   initializationPromise (run [Update (str ''a'') False] (newStream 0)) = True \<and>
   calls (run [Update (str ''a'') False, Finalize (str ''done'')] (newStream 0)) = [Create (str ''a'')] \<and>
   isFinalized (run [Update (str ''a'') False, Finalize (str ''done'')] (newStream 0)) = False"
  by (simp add: stream_defs)





lemma sameCreation_refl: "sameCreation s s"
  by (simp add: sameCreation_def)

lemma sameCreation_trans: "sameCreation s s' \<Longrightarrow> sameCreation s' s'' \<Longrightarrow> sameCreation s s''"
  by (simp add: sameCreation_def)

lemma performUpdate_same: "sameCreation s (performUpdate c s)"
  by (simp add: sameCreation_def performUpdate_def isInitTask_def creations_def isCreate_def)

lemma scheduleOrExecute_same: "sameCreation s (scheduleOrExecute c f s)"
  using performUpdate_same [of s c]
  by (simp add: scheduleOrExecute_def Let_def sameCreation_def creations_def)

lemma resumeWaiter_same: "sameCreation s (resumeWaiter w s)"
  using scheduleOrExecute_same [of s "fst w" "snd w"]
  by (simp add: resumeWaiter_def sameCreation_refl)

lemma fold_resumeWaiter_same: "sameCreation s (fold resumeWaiter ws s)"
proof (induction ws arbitrary: s)
  case Nil
  then show ?case by (simp add: sameCreation_refl)
next
  case (Cons w ws)
  have "sameCreation s (resumeWaiter w s)" by (rule resumeWaiter_same)
  moreover have "sameCreation (resumeWaiter w s) (fold resumeWaiter ws (resumeWaiter w s))"
    by (rule Cons.IH)
  ultimately show ?case using sameCreation_trans by auto
qed

lemma finalize_same: "sameCreation s (finalize c s)"
  by (simp add: sameCreation_def finalize_def Let_def isInitTask_def creations_def isCreate_def)

lemma fire_same: "sameCreation s (fire s)"
proof (cases "pendingUpdate s")
  case None
  then show ?thesis by (simp add: fire_def sameCreation_refl)
next
  case (Some p)
  obtain due c where p: "p = (due, c)" by (cases p)
  have "sameCreation (s\<lparr> pendingUpdate := None \<rparr>) (performUpdate c (s\<lparr> pendingUpdate := None \<rparr>))"
    by (rule performUpdate_same)
  then show ?thesis
    using Some p by (simp add: fire_def sameCreation_def creations_def)
qed

lemma oneCreation_same: "oneCreation s \<Longrightarrow> sameCreation s s' \<Longrightarrow> oneCreation s'"
  by (simp add: oneCreation_def sameCreation_def hasMessageId_def)

lemma update_oneCreation: "oneCreation s \<Longrightarrow> oneCreation (update c f s)"
proof -
  assume a: "oneCreation s"
  have sch: "oneCreation (scheduleOrExecute c f s)"
    using a scheduleOrExecute_same oneCreation_same by blast
  have w: "oneCreation (s\<lparr> waiters := waiters s @ [(c, f)] \<rparr>)"
    using a by (simp add: oneCreation_def hasMessageId_def)
  have st: "\<not> hasMessageId s \<Longrightarrow> \<not> initializationPromise s \<Longrightarrow>
      oneCreation (s\<lparr> initializationPromise := True, calls := calls s @ [Create c],
                            inflight := inflight s @ [InitTask c] \<rparr>)"
    using a by (simp add: oneCreation_def hasMessageId_def isInitTask_def)
  show ?thesis
    unfolding update_def using a sch w st by simp
qed

lemma filter_remove_nth:
  assumes "k < length xs"
  shows "length (filter P xs) =
         length (filter P (take k xs @ drop (Suc k) xs)) + (if P (xs ! k) then 1 else 0)"
proof -
  have "xs = take k xs @ xs ! k # drop (Suc k) xs"
    using assms by (rule id_take_nth_drop)
  then have "filter P xs = filter P (take k xs @ xs ! k # drop (Suc k) xs)" by simp
  then show ?thesis by (simp del: append_take_drop_id)
qed

lemma continue_other:
  "\<not> isInitTask t \<Longrightarrow> sameCreation s (continue t out s)"
  by (cases t; cases out) (simp_all add: isInitTask_def sameCreation_def creations_def)

lemma settle_oneCreation: "oneCreation s \<Longrightarrow> oneCreation (settle k out s)"
proof -
  assume a: "oneCreation s"
  show ?thesis
  proof (cases "k < length (inflight s)")
    case False
    with a show ?thesis by (simp add: settle_def)
  next
    case True
    define s0 where "s0 = s\<lparr> inflight := take k (inflight s) @ drop (Suc k) (inflight s) \<rparr>"
    have st: "settle k out s = continue (inflight s ! k) out s0"
      using True by (simp add: settle_def s0_def)
    have len: "length (filter isInitTask (inflight s)) =
         length (filter isInitTask (inflight s0)) + (if isInitTask (inflight s ! k) then 1 else 0)"
      using filter_remove_nth [OF True, of isInitTask] by (simp add: s0_def)
    show ?thesis
    proof (cases "isInitTask (inflight s ! k)")
      case False
      then have "oneCreation s0"
        using a len by (simp add: oneCreation_def s0_def hasMessageId_def)
      moreover have "sameCreation s0 (continue (inflight s ! k) out s0)"
        using False by (rule continue_other)
      ultimately show ?thesis using st oneCreation_same by simp
    next
      case True
      then obtain c where t: "inflight s ! k = InitTask c"
        by (cases "inflight s ! k") (simp_all add: isInitTask_def)
      have none: "filter isInitTask (inflight s0) = []"
        using a len True by (cases "initializationPromise s") (simp_all add: oneCreation_def)
      define s1 where "s1 = (case out of
          Resolved mid \<Rightarrow> s0\<lparr> messageId := Some mid, lastContent := c, lastUpdateTime := now s0,
                   initializationPromise := False, waiters := [] \<rparr>
        | Rejected \<Rightarrow> s0\<lparr> initializationPromise := False, waiters := [] \<rparr>)"
      have c1: "continue (InitTask c) out s0 = fold resumeWaiter (waiters s0) s1"
        by (cases out) (simp_all add: s1_def Let_def)
      have "oneCreation s1"
        using none by (cases out) (simp_all add: s1_def oneCreation_def)
      moreover have "sameCreation s1 (fold resumeWaiter (waiters s0) s1)"
        by (rule fold_resumeWaiter_same)
      ultimately show ?thesis using st t c1 oneCreation_same by simp
    qed
  qed
qed

lemma step_oneCreation: "oneCreation s \<Longrightarrow> oneCreation (step e s)"
proof (cases e)
  case (Update c f)
  assume "oneCreation s"
  then show ?thesis using Update by (simp add: update_oneCreation)
next
  case (Finalize c)
  assume "oneCreation s"
  then show ?thesis using Finalize finalize_same [of s c] by (simp add: oneCreation_same)
next
  case (Settle k out)
  assume "oneCreation s"
  then show ?thesis using Settle by (simp add: settle_oneCreation)
next
  case Fire
  assume "oneCreation s"
  then show ?thesis using Fire fire_same [of s] by (simp add: oneCreation_same)
next
  case (Tick d)
  assume "oneCreation s"
  then show ?thesis using Tick by (simp add: oneCreation_def hasMessageId_def)
qed

lemma run_oneCreation: "oneCreation s \<Longrightarrow> oneCreation (run es s)"
  unfolding run_def
  by (induction es arbitrary: s) (simp_all add: step_oneCreation)

lemma newStream_oneCreation: "oneCreation (newStream t)"
  by (simp add: oneCreation_def newStream_def hasMessageId_def)

text \<open>With a message id recorded and no creation in flight, no step creates.\<close>

lemma step_live:
  assumes "oneCreation s" and "hasMessageId s"
  shows "hasMessageId (step e s) \<and> creations (step e s) = creations s"
proof -
  have np: "\<not> initializationPromise s"
    using assms by (simp add: oneCreation_def)
  have no: "filter isInitTask (inflight s) = []"
    using assms(1) np by (simp add: oneCreation_def)
  have "sameCreation s (step e s)"
  proof (cases e)
    case (Update c f)
    have "update c f s = s \<or> update c f s = scheduleOrExecute c f s"
      using assms(2) by (simp add: update_def)
    then show ?thesis
      using Update scheduleOrExecute_same [of s c f] sameCreation_refl by auto
  next
    case (Finalize c)
    then show ?thesis using finalize_same by simp
  next
    case (Settle k out)
    show ?thesis
    proof (cases "k < length (inflight s)")
      case False
      then show ?thesis using Settle by (simp add: settle_def sameCreation_refl)
    next
      case True
      then have "inflight s ! k \<in> set (inflight s)" by simp
      then have ni: "\<not> isInitTask (inflight s ! k)"
        using no by (metis filter_empty_conv)
      define s0 where "s0 = s\<lparr> inflight := take k (inflight s) @ drop (Suc k) (inflight s) \<rparr>"
      have "length (filter isInitTask (inflight s)) =
         length (filter isInitTask (inflight s0)) + (if isInitTask (inflight s ! k) then 1 else 0)"
        using filter_remove_nth [OF True, of isInitTask] by (simp add: s0_def)
      then have "filter isInitTask (inflight s0) = []" using no by simp
      then have "sameCreation s s0"
        using no by (simp add: sameCreation_def s0_def creations_def)
      moreover have "sameCreation s0 (continue (inflight s ! k) out s0)"
        using ni by (rule continue_other)
      ultimately have "sameCreation s (continue (inflight s ! k) out s0)"
        by (rule sameCreation_trans)
      then show ?thesis using Settle True by (simp add: settle_def s0_def)
    qed
  next
    case Fire
    then show ?thesis using fire_same by simp
  next
    case (Tick d)
    then show ?thesis by (simp add: sameCreation_def creations_def)
  qed
  then show ?thesis using assms(2) by (simp add: sameCreation_def hasMessageId_def)
qed

lemma run_live:
  "oneCreation s \<Longrightarrow> hasMessageId s \<Longrightarrow> creations (run es s) = creations s"
proof (induction es arbitrary: s)
  case Nil
  then show ?case by (simp add: run_def)
next
  case (Cons e es)
  have "oneCreation (step e s)" using Cons.prems(1) by (rule step_oneCreation)
  moreover have "hasMessageId (step e s)" "creations (step e s) = creations s"
    using step_live [OF Cons.prems] by simp_all
  ultimately have "creations (run es (step e s)) = creations s"
    using Cons.IH by simp
  then show ?case by (simp add: run_def)
qed

lemma update_waits:
  "initializationPromise s \<Longrightarrow> creations (update c f s) = creations s"
  using scheduleOrExecute_same [of s c f]
  by (simp add: update_def creations_def sameCreation_def)

text \<open>
  Claim C3, as amended. In every state a stream can reach, at most one creation is in
  flight; an \<open>update\<close> that arrives while one is in flight issues no creation; and once
  a message id is recorded, no later call or event issues a creation. (A creation that
  failed is started again by the next \<open>update\<close>.)
\<close>

theorem at_most_one_creation_in_flight:
  "length (filter isInitTask (inflight (run es (newStream t)))) \<le> 1 \<and>
   (initializationPromise (run es (newStream t)) \<longrightarrow>
      creations (update content isFinal (run es (newStream t))) = creations (run es (newStream t))) \<and>
   (hasMessageId (run es (newStream t)) \<longrightarrow>
      creations (run es' (run es (newStream t))) = creations (run es (newStream t)))"
proof -
  have i: "oneCreation (run es (newStream t))"
    using newStream_oneCreation by (rule run_oneCreation)
  then have "length (filter isInitTask (inflight (run es (newStream t)))) \<le> 1"
    by (simp add: oneCreation_def)
  then show ?thesis using i run_live update_waits by blast
qed

theorem at_most_one_creation_in_flight_witness:
  "initializationPromise (run [Update (str ''a'') False] (newStream 0)) \<and>
   creations (update (str ''ab'') False (run [Update (str ''a'') False] (newStream 0))) = [Create (str ''a'')] \<and>
   hasMessageId (run [Update (str ''a'') False, Settle 0 (Resolved (str ''om_1''))] (newStream 0)) \<and>
   creations (run [Tick 500, Update (str ''ab'') False]
     (run [Update (str ''a'') False, Settle 0 (Resolved (str ''om_1''))] (newStream 0))) = [Create (str ''a'')]"
proof -
  have a: "initializationPromise (run [Update (str ''a'') False] (newStream 0))"
    "creations (run [Update (str ''a'') False] (newStream 0)) = [Create (str ''a'')]"
    by (simp_all add: stream_defs creations_def isCreate_def)
  have b: "hasMessageId (run [Update (str ''a'') False, Settle 0 (Resolved (str ''om_1''))] (newStream 0))"
    "creations (run [Update (str ''a'') False, Settle 0 (Resolved (str ''om_1''))] (newStream 0)) = [Create (str ''a'')]"
    by (simp_all add: stream_defs creations_def isCreate_def)
  show ?thesis
    using a b
      at_most_one_creation_in_flight [of "[Update (str ''a'') False]" 0 "str ''ab''" False "[]"]
      at_most_one_creation_in_flight
        [of "[Update (str ''a'') False, Settle 0 (Resolved (str ''om_1''))]" 0 "[]" False
            "[Tick 500, Update (str ''ab'') False]"]
    by simp
qed

theorem second_creation_counterexample:
  "calls (run [Update (str ''a'') False, Settle 0 Rejected, Update (str ''ab'') False] (newStream 0)) =
     [Create (str ''a''), Create (str ''ab'')]"
  by (simp add: stream_defs)

section \<open>Properties of reading messages\<close>

text \<open>
  Claim C9. On a configured channel whose client can be built, \<open>getMessageFeishu\<close>
  never raises. It returns \<open>null\<close> exactly when the transport call throws, when the
  response code is not zero, or when the response holds no message item; otherwise it
  returns the message info built from the first item.
\<close>

theorem getMessageFeishu_null_or_info:
  assumes "feishuCfg = Some fc" and "createFeishuClient fc = Inr cl"
  shows "(\<exists>r. getMessageFeishu b createFeishuClient feishuCfg msgId = Inr r) \<and>
     (getMessageFeishu b createFeishuClient feishuCfg msgId = Inr None \<longleftrightarrow>
        (\<exists>e. im_message_get cl msgId = Inl e) \<or>
        (\<exists>response. im_message_get cl msgId = Inr response \<and>
           (code response \<noteq> Some 0 \<or> orElse (data_items response) [] = []))) \<and>
     (\<forall>response item rest.
        im_message_get cl msgId = Inr response \<and> code response = Some 0 \<and>
        data_items response = Some (item # rest) \<longrightarrow>
        getMessageFeishu b createFeishuClient feishuCfg msgId =
          Inr (Some (toMessageInfo b msgId item)))"
proof (cases "im_message_get cl msgId")
  case (Inl e)
  then show ?thesis using assms by (simp add: getMessageFeishu_def)
next
  case (Inr response)
  show ?thesis
  proof (cases "orElse (data_items response) []")
    case Nil
    then show ?thesis using assms Inr by (auto simp: getMessageFeishu_def orElse_def)
  next
    case (Cons item rest)
    then show ?thesis using assms Inr by (auto simp: getMessageFeishu_def orElse_def)
  qed
qed

theorem getMessageFeishu_null_or_info_witness:
  "getMessageFeishu exampleBuiltins exampleCreateClient (Some ()) (str ''om_1'') =
     Inr (Some \<lparr> info_messageId = str ''om_1'', info_chatId = str ''oc_1'',
                  info_senderId = Some (str ''ou_1''), info_senderOpenId = Some (str ''ou_1''),
                  info_content = str ''hi'', info_contentType = str ''text'',
                  info_createTime = Some (Num 1700000000000) \<rparr>) \<and>
   getMessageFeishu exampleBuiltins exampleCreateClient (Some ()) (str ''om_2'') = Inr None"
proof -
  have c: "exampleCreateClient () = Inr exampleClient" by (simp add: exampleCreateClient_def)
  have g1: "im_message_get exampleClient (str ''om_1'') = Inr exampleResponse"
    by (simp add: exampleClient_def)
  have g2: "im_message_get exampleClient (str ''om_2'') = Inl TransportError"
    by (simp add: exampleClient_def str_def)
  have r: "code exampleResponse = Some 0" "data_items exampleResponse = Some (exampleItem # [])"
    by (simp_all add: exampleResponse_def)
  have i: "toMessageInfo exampleBuiltins (str ''om_1'') exampleItem =
      \<lparr> info_messageId = str ''om_1'', info_chatId = str ''oc_1'',
                  info_senderId = Some (str ''ou_1''), info_senderOpenId = Some (str ''ou_1''),
                  info_content = str ''hi'', info_contentType = str ''text'',
                  info_createTime = Some (Num 1700000000000) \<rparr>"
    by (simp add: toMessageInfo_def exampleItem_def exampleBuiltins_def getContent_def orElse_def
        senderField_def truthy_def str_def)
  from getMessageFeishu_null_or_info
         [of "Some ()" "()" exampleCreateClient exampleClient exampleBuiltins "str ''om_1''"] c g1 r
  have "getMessageFeishu exampleBuiltins exampleCreateClient (Some ()) (str ''om_1'') =
          Inr (Some (toMessageInfo exampleBuiltins (str ''om_1'') exampleItem))"
    by blast
  moreover from getMessageFeishu_null_or_info
         [of "Some ()" "()" exampleCreateClient exampleClient exampleBuiltins "str ''om_2''"] c g2
  have "getMessageFeishu exampleBuiltins exampleCreateClient (Some ()) (str ''om_2'') = Inr None"
    by blast
  ultimately show ?thesis using i by simp
qed

declare listLoop.simps [simp del]

lemma pushItems_le:
  "int (length msgs) \<le> cnt \<Longrightarrow> int (length (pushItems b cnt msgs its)) \<le> cnt"
proof (induction its arbitrary: msgs)
  case Nil
  then show ?case by simp
next
  case (Cons item rest)
  show ?case
  proof (cases "int (length msgs) \<ge> cnt")
    case True
    then show ?thesis using Cons.prems by simp
  next
    case False
    then have "int (length (msgs @ [toHistoryMessage b item])) \<le> cnt" by simp
    then have "int (length (pushItems b cnt (msgs @ [toHistoryMessage b item]) rest)) \<le> cnt"
      by (rule Cons.IH)
    then show ?thesis using False by simp
  qed
qed

lemma listLoop_stop:
  "\<not> (ls_hasMore st \<and> int (length (ls_messages st)) < cnt) \<Longrightarrow>
     listLoop fuel b cl ps cnt st = Some (Inr st)"
  by (subst listLoop.simps) auto

lemma listLoop_Suc:
  "ls_hasMore st \<and> int (length (ls_messages st)) < cnt \<Longrightarrow>
     listLoop (Suc fuel) b cl ps cnt st =
       (case im_message_list cl
               \<lparr> container_id = chatId ps, page_size = min 50 cnt,
                 req_page_token = ls_currentPageToken st,
                 start_time = startTime ps, end_time = endTime ps,
                 sort_type = orElse (sortType ps) (str ''ByCreateTimeDesc'') \<rparr> of
          Inl e \<Rightarrow> Some (Inl e)
        | Inr response \<Rightarrow>
            if code response \<noteq> Some 0 then Some (Inl ListMessagesFailed)
            else listLoop fuel b cl ps cnt
                   \<lparr> ls_messages = pushItems b cnt (ls_messages st) (orElse (data_items response) []),
                     ls_hasMore = (if truthy (page_token response) then orElse (has_more response) False
                                   else False),
                     ls_currentPageToken = page_token response \<rparr>)"
  by (subst listLoop.simps) simp

lemma listLoop_0:
  "ls_hasMore st \<and> int (length (ls_messages st)) < cnt \<Longrightarrow> listLoop 0 b cl ps cnt st = None"
  by (subst listLoop.simps) simp

lemma listLoop_le:
  "listLoop fuel b cl ps cnt st = Some (Inr st') \<Longrightarrow> int (length (ls_messages st)) \<le> cnt \<Longrightarrow>
     int (length (ls_messages st')) \<le> cnt"
proof (induction fuel arbitrary: st)
  case 0
  show ?case
  proof (cases "ls_hasMore st \<and> int (length (ls_messages st)) < cnt")
    case True
    then show ?thesis using "0.prems"(1) by (simp add: listLoop_0)
  next
    case False
    then have "st' = st" using "0.prems"(1) by (simp add: listLoop_stop)
    then show ?thesis using "0.prems"(2) by simp
  qed
next
  case (Suc fuel)
  show ?case
  proof (cases "ls_hasMore st \<and> int (length (ls_messages st)) < cnt")
    case False
    then have "st' = st" using Suc.prems(1) by (simp add: listLoop_stop)
    then show ?thesis using Suc.prems(2) by simp
  next
    case True
    define req where "req = \<lparr> container_id = chatId ps, page_size = min 50 cnt,
                 req_page_token = ls_currentPageToken st,
                 start_time = startTime ps, end_time = endTime ps,
                 sort_type = orElse (sortType ps) (str ''ByCreateTimeDesc'') \<rparr>"
    define next_state where "next_state (response :: api_response) =
        \<lparr> ls_messages = pushItems b cnt (ls_messages st) (orElse (data_items response) []),
          ls_hasMore = (if truthy (page_token response) then orElse (has_more response) False
                        else False),
          ls_currentPageToken = page_token response \<rparr>" for response
    have eq: "(case im_message_list cl req of
                 Inl e \<Rightarrow> Some (Inl e)
               | Inr response \<Rightarrow>
                   if code response \<noteq> Some 0 then Some (Inl ListMessagesFailed)
                   else listLoop fuel b cl ps cnt (next_state response)) = Some (Inr st')"
      using Suc.prems(1) unfolding listLoop_Suc [OF True] req_def next_state_def .
    show ?thesis
    proof (cases "im_message_list cl req")
      case (Inl e)
      then show ?thesis using eq by simp
    next
      case (Inr response)
      show ?thesis
      proof (cases "code response \<noteq> Some 0")
        case True
        then show ?thesis using eq Inr by simp
      next
        case False
        then have rec: "listLoop fuel b cl ps cnt (next_state response) = Some (Inr st')"
          using eq Inr by simp
        have "int (length (ls_messages (next_state response))) \<le> cnt"
          using Suc.prems(2) by (simp add: next_state_def pushItems_le)
        then show ?thesis using rec by (rule Suc.IH [rotated -1])
      qed
    qed
  qed
qed

text \<open>
  Claim C10. For a positive requested count (200 when none is given), a result of
  \<open>listMessagesFeishu\<close> holds at most that many messages, and its \<open>total\<close> is the number
  of messages it holds: those fetched by this call, whatever the chat holds.
\<close>

theorem listMessagesFeishu_at_most_count:
  assumes "0 < orElse (count ps) 200"
    and "listMessagesFeishu fuel b createFeishuClient feishuCfg ps = Some (Inr res)"
  shows "int (length (messages res)) \<le> orElse (count ps) 200 \<and>
         total res = length (messages res)"
proof -
  from assms(2) obtain fc cl st where
    "feishuCfg = Some fc" "createFeishuClient fc = Inr cl"
    and l: "listLoop fuel b cl ps (orElse (count ps) 200)
              \<lparr> ls_messages = [], ls_hasMore = True, ls_currentPageToken = firstPageToken ps \<rparr>
            = Some (Inr st)"
    and r: "res = \<lparr> messages = ls_messages st, hasMore = ls_hasMore st,
                    pageToken = ls_currentPageToken st, total = length (ls_messages st) \<rparr>"
    by (auto simp: listMessagesFeishu_def split: option.splits sum.splits)
  have "int (length (ls_messages st)) \<le> orElse (count ps) 200"
    using listLoop_le [OF l] assms(1) by simp
  then show ?thesis using r by simp
qed

theorem listMessagesFeishu_at_most_count_witness:
  "listMessagesFeishu 1 exampleBuiltins examplePagedClient (Some ()) exampleParams =
     Some (Inr \<lparr> messages = [toHistoryMessage exampleBuiltins exampleItem], hasMore = True,
                 pageToken = Some (str ''next''), total = 1 \<rparr>) \<and>
   int (length [toHistoryMessage exampleBuiltins exampleItem]) \<le> orElse (count exampleParams) 200"
proof -
  have c: "0 < orElse (count exampleParams) 200"
    by (simp add: exampleParams_def orElse_def)
  have r: "listMessagesFeishu 1 exampleBuiltins examplePagedClient (Some ()) exampleParams =
     Some (Inr \<lparr> messages = [toHistoryMessage exampleBuiltins exampleItem], hasMore = True,
                 pageToken = Some (str ''next''), total = 1 \<rparr>)"
    by (simp add: listMessagesFeishu_def examplePagedClient_def exampleParams_def orElse_def
        listLoop_Suc listLoop_stop examplePage_def truthy_def str_def)
  show ?thesis
    using listMessagesFeishu_at_most_count [OF c r] r by simp
qed

lemma pushItems_mono: "length msgs \<le> length (pushItems b cnt msgs its)"
proof (induction its arbitrary: msgs)
  case Nil
  then show ?case by simp
next
  case (Cons item rest)
  have "length (msgs @ [toHistoryMessage b item]) \<le>
        length (pushItems b cnt (msgs @ [toHistoryMessage b item]) rest)"
    by (rule Cons.IH)
  then show ?case by simp
qed

lemma pushItems_grows:
  assumes "its \<noteq> []" and "int (length msgs) < cnt"
  shows "length msgs < length (pushItems b cnt msgs its)"
proof -
  obtain item rest where i: "its = item # rest" using assms(1) by (cases its) auto
  have "length (msgs @ [toHistoryMessage b item]) \<le>
        length (pushItems b cnt (msgs @ [toHistoryMessage b item]) rest)"
    by (rule pushItems_mono)
  then show ?thesis using assms(2) i by simp
qed

text \<open>
  The loop ends when the server makes progress: with \<open>count\<close> minus the messages
  fetched as fuel, if no page that announces more pages is empty.
\<close>

lemma listLoop_returns:
  assumes "\<forall>req response. im_message_list cl req = Inr response \<and> code response = Some 0 \<and>
             truthy (page_token response) \<and> orElse (has_more response) False \<longrightarrow>
             orElse (data_items response) [] \<noteq> []"
  shows "nat (cnt - int (length (ls_messages st))) \<le> fuel \<Longrightarrow>
         \<exists>r. listLoop fuel b cl ps cnt st = Some r"
proof (induction fuel arbitrary: st)
  case 0
  then have "\<not> (ls_hasMore st \<and> int (length (ls_messages st)) < cnt)" by auto
  then show ?case by (simp add: listLoop_stop)
next
  case (Suc fuel)
  show ?case
  proof (cases "ls_hasMore st \<and> int (length (ls_messages st)) < cnt")
    case False
    then show ?thesis by (simp add: listLoop_stop)
  next
    case True
    define req where "req = \<lparr> container_id = chatId ps, page_size = min 50 cnt,
                 req_page_token = ls_currentPageToken st,
                 start_time = startTime ps, end_time = endTime ps,
                 sort_type = orElse (sortType ps) (str ''ByCreateTimeDesc'') \<rparr>"
    define next_state where "next_state (response :: api_response) =
        \<lparr> ls_messages = pushItems b cnt (ls_messages st) (orElse (data_items response) []),
          ls_hasMore = (if truthy (page_token response) then orElse (has_more response) False
                        else False),
          ls_currentPageToken = page_token response \<rparr>" for response
    have eq: "listLoop (Suc fuel) b cl ps cnt st =
              (case im_message_list cl req of
                 Inl e \<Rightarrow> Some (Inl e)
               | Inr response \<Rightarrow>
                   if code response \<noteq> Some 0 then Some (Inl ListMessagesFailed)
                   else listLoop fuel b cl ps cnt (next_state response))"
      unfolding listLoop_Suc [OF True] req_def next_state_def ..
    show ?thesis
    proof (cases "im_message_list cl req")
      case (Inl e)
      then show ?thesis using eq by simp
    next
      case (Inr response)
      show ?thesis
      proof (cases "code response \<noteq> Some 0")
        case True
        then show ?thesis using eq Inr by simp
      next
        case c0: False
        have "\<exists>r. listLoop fuel b cl ps cnt (next_state response) = Some r"
        proof (cases "ls_hasMore (next_state response)")
          case False
          then show ?thesis by (simp add: listLoop_stop)
        next
          case True
          then have "truthy (page_token response) \<and> orElse (has_more response) False"
            by (simp add: next_state_def split: if_splits)
          then have "orElse (data_items response) [] \<noteq> []"
            using assms Inr c0 by blast
          then have "length (ls_messages st) < length (ls_messages (next_state response))"
            using \<open>ls_hasMore st \<and> int (length (ls_messages st)) < cnt\<close>
            by (simp add: next_state_def pushItems_grows)
          then have "nat (cnt - int (length (ls_messages (next_state response)))) \<le> fuel"
            using Suc.prems by linarith
          then show ?thesis by (rule Suc.IH)
        qed
        then show ?thesis using eq Inr c0 by simp
      qed
    qed
  qed
qed

section \<open>Properties of a turn\<close>

lemma handleFeishuMessage_route_fails:
  "resolveAgentRoute t = Inl e \<Longrightarrow> handleFeishuMessage t = (Some e, chatHistories t, [])"
  by (simp add: handleFeishuMessage_def)

lemma combinedBody_with_history:
  assumes "isGroup t" and "ctx_chatId t \<noteq> []" and "chatHistories t = Some hm"
    and "hm (ctx_chatId t) = Some es"
  shows "combinedBody t =
      concat (map (formatEntry t) es) @ formatAgentEnvelope t (ctx_chatId t) (clock t) (messageBody t)"
  using assms
  by (simp add: combinedBody_def usesHistory_def buildPendingHistoryContextFromMap_def orElse_def)

lemma exampleTurn_facts:
  "isGroup exampleTurn" "ctx_chatId exampleTurn \<noteq> []"
  "chatHistories exampleTurn = Some [str ''oc_1'' \<mapsto> [exampleEntry]]"
  "[str ''oc_1'' \<mapsto> [exampleEntry]] (ctx_chatId exampleTurn) = Some [exampleEntry]"
  "[exampleEntry] \<noteq> []" "0 < historyLimit exampleTurn"
  "resolveAgentRoute exampleTurn = Inr ()"
  by (simp_all add: exampleTurn_def str_def)

lemma exampleTurn_body:
  "messageBody exampleTurn = str ''[Replying to: \"hi\"]'' @ [10, 10] @ str ''hello''"
  "fetches exampleTurn = [QuotedMessage]"
  by (simp_all add: messageBody_def fetches_def quotedContent_def voiceTranscription_def
      historyContext_def exampleTurn_def exampleQuoted_def truthy_def orElse_def str_def)

lemma exampleTurn_payload:
  "concat (map (formatEntry exampleTurn) [exampleEntry]) @
     formatAgentEnvelope exampleTurn (ctx_chatId exampleTurn) (clock exampleTurn)
       (messageBody exampleTurn)
   = str ''ou_2: earlier;[Replying to: \"hi\"]'' @ [10, 10] @ str ''hello;''"
  unfolding exampleTurn_body
  by (simp add: formatEntry_def exampleTurn_def exampleEntry_def bodyOnly_def str_def)

lemma exampleFailingTurn_facts:
  "isGroup exampleFailingTurn" "ctx_chatId exampleFailingTurn \<noteq> []"
  "chatHistories exampleFailingTurn = Some [str ''oc_1'' \<mapsto> [exampleEntry]]"
  "[str ''oc_1'' \<mapsto> [exampleEntry]] (ctx_chatId exampleFailingTurn) = Some [exampleEntry]"
  "[exampleEntry] \<noteq> []" "0 < historyLimit exampleFailingTurn"
  "resolveAgentRoute exampleFailingTurn = Inr ()"
  by (simp_all add: exampleFailingTurn_def exampleTurn_def str_def)

text \<open>
  Claim C4, as amended. In a group turn with a non-empty buffer for its chat and a
  positive limit, the buffered entries, oldest first, are put ahead of the message body,
  and this is the body dispatched to the agent: it is composed before the dispatch and
  so before every transport call of the reply, and after the fetches that feed the
  message body. When the dispatch returns the buffer of the chat is emptied; when it
  throws the history map is left as it was.
\<close>

theorem pending_history_replayed_then_cleared:
  assumes "isGroup t" and "ctx_chatId t \<noteq> []" and "chatHistories t = Some hm"
    and "hm (ctx_chatId t) = Some es" and "es \<noteq> []" and "0 < historyLimit t"
    and "resolveAgentRoute t = Inr ()"
    and "dispatchReplyFromConfig t
           (concat (map (formatEntry t) es) @
            formatAgentEnvelope t (ctx_chatId t) (clock t) (messageBody t)) = (evs, outcome)"
  shows "snd (snd (handleFeishuMessage t)) =
           map Fetched (fetches t) @
           [Dispatched (concat (map (formatEntry t) es) @
                        formatAgentEnvelope t (ctx_chatId t) (clock t) (messageBody t))] @
           map Replied evs \<and>
         (outcome = Inr () \<longrightarrow>
            fst (handleFeishuMessage t) = None \<and>
            fst (snd (handleFeishuMessage t)) = Some (hm(ctx_chatId t \<mapsto> []))) \<and>
         (\<forall>e. outcome = Inl e \<longrightarrow>
            fst (handleFeishuMessage t) = Some e \<and>
            fst (snd (handleFeishuMessage t)) = Some hm)"
proof -
  have u: "usesHistory t" using assms(1-3) by (simp add: usesHistory_def)
  have b: "combinedBody t =
      concat (map (formatEntry t) es) @ formatAgentEnvelope t (ctx_chatId t) (clock t) (messageBody t)"
    using assms(1-4) by (rule combinedBody_with_history)
  show ?thesis
  proof (cases outcome)
    case (Inl e)
    then show ?thesis
      using assms(3,7,8) b by (simp add: handleFeishuMessage_def)
  next
    case (Inr x)
    then show ?thesis
      using assms(3,6,7,8) b u
      by (simp add: handleFeishuMessage_def clearHistoryEntriesIfEnabled_def orElse_def)
  qed
qed

theorem pending_history_replayed_then_cleared_witness:
  "snd (snd (handleFeishuMessage exampleTurn)) =
     [Fetched QuotedMessage,
      Dispatched (str ''ou_2: earlier;[Replying to: \"hi\"]'' @ [10, 10] @ str ''hello;''),
      Replied (Started (SendMessageFeishu (str ''ok''))),
      Replied (Completed (SendMessageFeishu (str ''ok'')) True)] \<and>
   fst (snd (handleFeishuMessage exampleTurn)) = Some [str ''oc_1'' \<mapsto> []] \<and>
   fst (snd (handleFeishuMessage exampleFailingTurn)) = Some [str ''oc_1'' \<mapsto> [exampleEntry]]"
proof -
  have d: "dispatchReplyFromConfig exampleTurn
           (concat (map (formatEntry exampleTurn) [exampleEntry]) @
            formatAgentEnvelope exampleTurn (ctx_chatId exampleTurn) (clock exampleTurn)
              (messageBody exampleTurn))
         = ([Started (SendMessageFeishu (str ''ok'')), Completed (SendMessageFeishu (str ''ok'')) True], Inr ())"
    by (simp add: exampleTurn_def dispatchSends_def)
  note ok = pending_history_replayed_then_cleared [OF exampleTurn_facts d]
  have df: "dispatchReplyFromConfig exampleFailingTurn
           (concat (map (formatEntry exampleFailingTurn) [exampleEntry]) @
            formatAgentEnvelope exampleFailingTurn (ctx_chatId exampleFailingTurn)
              (clock exampleFailingTurn) (messageBody exampleFailingTurn))
         = ([], Inl CollaboratorError)"
    by (simp add: exampleFailingTurn_def dispatchThrows_def)
  note ko = pending_history_replayed_then_cleared [OF exampleFailingTurn_facts df]
  have k: "ctx_chatId exampleTurn = str ''oc_1''" by (simp add: exampleTurn_def)
  from ok have "snd (snd (handleFeishuMessage exampleTurn)) =
           map Fetched (fetches exampleTurn) @
           [Dispatched (concat (map (formatEntry exampleTurn) [exampleEntry]) @
              formatAgentEnvelope exampleTurn (ctx_chatId exampleTurn) (clock exampleTurn)
                (messageBody exampleTurn))] @
           map Replied [Started (SendMessageFeishu (str ''ok'')), Completed (SendMessageFeishu (str ''ok'')) True]"
    by blast
  then have 1: "snd (snd (handleFeishuMessage exampleTurn)) =
     [Fetched QuotedMessage,
      Dispatched (str ''ou_2: earlier;[Replying to: \"hi\"]'' @ [10, 10] @ str ''hello;''),
      Replied (Started (SendMessageFeishu (str ''ok''))),
      Replied (Completed (SendMessageFeishu (str ''ok'')) True)]"
    unfolding exampleTurn_payload exampleTurn_body(2) by simp
  from ok have "fst (snd (handleFeishuMessage exampleTurn)) =
      Some ([str ''oc_1'' \<mapsto> [exampleEntry]](ctx_chatId exampleTurn \<mapsto> []))"
    by blast
  then have 2: "fst (snd (handleFeishuMessage exampleTurn)) = Some [str ''oc_1'' \<mapsto> []]"
    unfolding k by simp
  from ko have 3: "fst (snd (handleFeishuMessage exampleFailingTurn)) = Some [str ''oc_1'' \<mapsto> [exampleEntry]]"
    by blast
  show ?thesis using 1 2 3 by blast
qed

theorem fetch_precedes_composition_counterexample:
  "ctx_parentId exampleTurn = Some (str ''om_1'') \<and>
   fetches exampleTurn = [QuotedMessage] \<and>
   snd (snd (handleFeishuMessage exampleTurn)) =
     [Fetched QuotedMessage,
      Dispatched (str ''ou_2: earlier;[Replying to: \"hi\"]'' @ [10, 10] @ str ''hello;''),
      Replied (Started (SendMessageFeishu (str ''ok''))),
      Replied (Completed (SendMessageFeishu (str ''ok'')) True)]"
proof -
  have "combinedBody exampleTurn = str ''ou_2: earlier;[Replying to: \"hi\"]'' @ [10, 10] @ str ''hello;''"
    using combinedBody_with_history [OF exampleTurn_facts(1-4)] exampleTurn_payload
    by (rule trans)
  moreover have "dispatchReplyFromConfig exampleTurn = dispatchSends" "resolveAgentRoute exampleTurn = Inr ()"
    "ctx_parentId exampleTurn = Some (str ''om_1'')"
    by (simp_all add: exampleTurn_def)
  ultimately show ?thesis
    using exampleTurn_body(2) by (simp add: handleFeishuMessage_def dispatchSends_def)
qed

end
